theory Spec2Isabelle
  imports Complex_Main "HOL-Library.AList" "HOL-Library.DAList"
begin

section \<open>Data model of \<open>src/party/server.ts\<close>\<close>

text \<open>
  The session controller keeps one \<open>GameState\<close> per room, in the state slot of the room
  (\<open>room.getState\<close>, \<open>room.setState\<close>). Player ids and the keys of the roster are strings,
  and a lookup \<open>state.players[k]\<close> finds the properties that the handlers have assigned. The
  fields \<open>id\<close>, \<open>x\<close> and \<open>z\<close> of the source are written \<open>pid\<close>, \<open>px\<close>, \<open>pz\<close> (Player)
  and \<open>mx\<close>, \<open>mz\<close>, \<open>mhp\<close> (Minion), since a record field is a constant of the theory.
\<close>

subsection \<open>JavaScript numbers\<close>

text \<open>
  A number of the program is an IEEE 754 double: NaN, an infinity, or a finite value. The
  finite doubles are the reals \<open>m * 2 ^ e\<close> with \<open>|m| < 2 ^ 53\<close> and \<open>-1074 \<le> e \<le> 971\<close>, the
  set \<open>doubles\<close>; \<open>Fin x\<close> is a value of the program when \<open>x\<close> is one of them, and the
  operations below return no other finite values. The two zeros are not told apart: the one
  division of the program is guarded by \<open>len > 0\<close>, and the comparisons, \<open>Math.min\<close>,
  \<open>Math.sqrt\<close> and \<open>JSON.stringify\<close> treat the zeros alike. An arithmetic operation on finite
  values returns its exact result rounded to the nearest double, ties to the even mantissa,
  and an infinity from \<open>2 ^ 1024 - 2 ^ 970\<close> on. \<open>Math.sqrt\<close> is correctly rounded.
  \<open>Math.hypot\<close>, which the language leaves to the implementation, is taken as correctly
  rounded; the facts proved about the tick use its values at the examples and that it
  returns 0 only when both offsets are 0.

  A numeric field of a message is the number that the arithmetic of the code reads in it,
  the field converted to a number: NaN when the field is missing or converts to no number, an
  infinity for a JSON number such as \<open>1e999\<close>. The position fields of a move are stored
  as received and read only by the subtractions of the tick, which convert them so.
\<close>

datatype number = NaN | MinusInf | PlusInf | Fin real

definition doubles :: "real set" where
  "doubles = (\<lambda>(m, e). real_of_int m * 2 powi e) ` ({- (2 ^ 53) <..< 2 ^ 53} \<times> {- 1074 .. 971})"

definition nearest_doubles :: "real \<Rightarrow> real set" where
  "nearest_doubles x = {c \<in> doubles. \<forall>c' \<in> doubles. \<bar>c - x\<bar> \<le> \<bar>c' - x\<bar>}"

definition even_double :: "real \<Rightarrow> bool" where
  "even_double c \<longleftrightarrow>
     (\<exists>m e :: int. even m \<and> \<bar>m\<bar> < 2 ^ 53 \<and> - 1074 \<le> e \<and> e \<le> 971 \<and>
        (2 ^ 52 \<le> \<bar>m\<bar> \<or> e = - 1074) \<and> c = real_of_int m * 2 powi e)"

definition round_nearest_even :: "real \<Rightarrow> real" where
  "round_nearest_even x =
     (if \<exists>c \<in> nearest_doubles x. even_double c then SOME c. c \<in> nearest_doubles x \<and> even_double c
      else SOME c. c \<in> nearest_doubles x)"

definition rd :: "real \<Rightarrow> number" where
  "rd x = (if 2 ^ 1024 - 2 ^ 970 \<le> x then PlusInf
           else if x \<le> - (2 ^ 1024 - 2 ^ 970) then MinusInf
           else Fin (round_nearest_even x))"

text \<open>The operators \<open>+\<close>, \<open>-\<close>, \<open>*\<close>, \<open>/\<close>, \<open><\<close> and \<open><=\<close> of the language on numbers.\<close>

instantiation number :: "{plus, minus, times, inverse, ord}"
begin

fun plus_number :: "number \<Rightarrow> number \<Rightarrow> number" where
  "NaN + b = NaN"
| "a + NaN = NaN"
| "PlusInf + MinusInf = NaN"
| "MinusInf + PlusInf = NaN"
| "PlusInf + b = PlusInf"
| "a + PlusInf = PlusInf"
| "MinusInf + b = MinusInf"
| "a + MinusInf = MinusInf"
| "Fin x + Fin y = rd (x + y)"

fun minus_number :: "number \<Rightarrow> number \<Rightarrow> number" where
  "NaN - b = NaN"
| "a - NaN = NaN"
| "PlusInf - PlusInf = NaN"
| "MinusInf - MinusInf = NaN"
| "PlusInf - b = PlusInf"
| "a - MinusInf = PlusInf"
| "MinusInf - b = MinusInf"
| "a - PlusInf = MinusInf"
| "Fin x - Fin y = rd (x - y)"

fun times_number :: "number \<Rightarrow> number \<Rightarrow> number" where
  "NaN * b = NaN"
| "a * NaN = NaN"
| "Fin x * Fin y = rd (x * y)"
| "Fin x * PlusInf = (if x = 0 then NaN else if 0 < x then PlusInf else MinusInf)"
| "Fin x * MinusInf = (if x = 0 then NaN else if 0 < x then MinusInf else PlusInf)"
| "PlusInf * Fin y = (if y = 0 then NaN else if 0 < y then PlusInf else MinusInf)"
| "MinusInf * Fin y = (if y = 0 then NaN else if 0 < y then MinusInf else PlusInf)"
| "PlusInf * PlusInf = PlusInf"
| "MinusInf * MinusInf = PlusInf"
| "PlusInf * MinusInf = MinusInf"
| "MinusInf * PlusInf = MinusInf"

fun divide_number :: "number \<Rightarrow> number \<Rightarrow> number" where
  "divide_number NaN b = NaN"
| "divide_number a NaN = NaN"
| "divide_number (Fin x) (Fin y) =
     (if y = 0 then (if x = 0 then NaN else if 0 < x then PlusInf else MinusInf)
      else rd (x / y))"
| "divide_number (Fin x) b = Fin 0"
| "divide_number PlusInf (Fin y) = (if 0 \<le> y then PlusInf else MinusInf)"
| "divide_number MinusInf (Fin y) = (if 0 \<le> y then MinusInf else PlusInf)"
| "divide_number a b = NaN"

definition inverse_number :: "number \<Rightarrow> number" where
  "inverse_number a = divide (Fin 1) a"

fun less_number :: "number \<Rightarrow> number \<Rightarrow> bool" where
  "NaN < b \<longleftrightarrow> False"
| "a < NaN \<longleftrightarrow> False"
| "Fin x < Fin y \<longleftrightarrow> x < y"
| "a < MinusInf \<longleftrightarrow> False"
| "PlusInf < b \<longleftrightarrow> False"
| "MinusInf < b \<longleftrightarrow> True"
| "a < PlusInf \<longleftrightarrow> True"

definition less_eq_number :: "number \<Rightarrow> number \<Rightarrow> bool" where
  "less_eq_number a b \<longleftrightarrow> a < b \<or> (a = b \<and> a \<noteq> NaN)"

instance ..

end

definition Math_min :: "number \<Rightarrow> number \<Rightarrow> number" where
  "Math_min a b = (if a = NaN \<or> b = NaN then NaN else if a < b then a else b)"

fun Math_sqrt :: "number \<Rightarrow> number" where
  "Math_sqrt (Fin x) = (if x < 0 then NaN else rd (sqrt x))"
| "Math_sqrt PlusInf = PlusInf"
| "Math_sqrt a = NaN"

fun Math_hypot :: "number \<Rightarrow> number \<Rightarrow> number" where
  "Math_hypot (Fin x) (Fin y) = rd (sqrt (x * x + y * y))"
| "Math_hypot PlusInf b = PlusInf"
| "Math_hypot MinusInf b = PlusInf"
| "Math_hypot a PlusInf = PlusInf"
| "Math_hypot a MinusInf = PlusInf"
| "Math_hypot a b = NaN"

datatype Role = Hunter | Runner

record Player =
  pid :: string
  px :: number
  pz :: number
  rot :: number
  role :: Role
  hp :: number
  weapon :: string
  charIndex :: number

record Minion =
  mx :: number
  mz :: number
  mhp :: number

subsection \<open>The roster: a JavaScript object keyed by connection id\<close>

text \<open>
  \<open>players: Record<string, Player>\<close> is an object: its keys are distinct, and
  \<open>Object.keys\<close>/\<open>Object.values\<close> enumerate array-index keys first, in ascending numeric
  order, then the other string keys in the order of their creation. Assigning to an existing
  key keeps its place. The roster is an association list with distinct keys, held in
  enumeration order: the own properties of the object. A key that names a property the
  object inherits (\<open>__proto__\<close>, \<open>constructor\<close>) is outside the model.
\<close>

definition digit_value :: "char \<Rightarrow> nat" where
  "digit_value c = of_char c - 48"

definition is_digit :: "char \<Rightarrow> bool" where
  "is_digit c \<longleftrightarrow> 48 \<le> (of_char c :: nat) \<and> (of_char c :: nat) \<le> 57"

definition key_index :: "string \<Rightarrow> nat" where
  "key_index k = foldl (\<lambda>n c. 10 * n + digit_value c) 0 k"

definition is_array_index :: "string \<Rightarrow> bool" where
  "is_array_index k \<longleftrightarrow>
     k \<noteq> [] \<and> list_all is_digit k \<and> (length k = 1 \<or> hd k \<noteq> CHR ''0'') \<and>
     key_index k < 4294967295"

fun insert_index :: "string \<Rightarrow> 'v \<Rightarrow> (string \<times> 'v) list \<Rightarrow> (string \<times> 'v) list" where
  "insert_index k v [] = [(k, v)]"
| "insert_index k v (e # es) =
     (if is_array_index (fst e) \<and> key_index (fst e) < key_index k
      then e # insert_index k v es
      else (k, v) # e # es)"

definition assign_raw :: "string \<Rightarrow> 'v \<Rightarrow> (string \<times> 'v) list \<Rightarrow> (string \<times> 'v) list" where
  "assign_raw k v es =
     (if map_of es k \<noteq> None then AList.update k v es
      else if is_array_index k then insert_index k v es
      else es @ [(k, v)])"

text \<open>\<open>obj[k] = v\<close>\<close>

lift_definition assign :: "string \<Rightarrow> 'v \<Rightarrow> (string, 'v) alist \<Rightarrow> (string, 'v) alist"
  is assign_raw
proof -
  fix k :: string and v :: 'v and es :: "(string \<times> 'v) list"
  assume "(distinct \<circ> map fst) es"
  then have d: "distinct (map fst es)" by simp
  have ins: "set (insert_index k v xs) = insert (k, v) (set xs)" for xs :: "(string \<times> 'v) list"
    by (induction xs) auto
  have "distinct (map fst (insert_index k v xs))"
    if "distinct (map fst xs)" "k \<notin> fst ` set xs" for xs :: "(string \<times> 'v) list"
    using that by (induction xs) (auto simp: ins)
  with d have "distinct (map fst (assign_raw k v es))"
    by (auto simp: assign_raw_def distinct_update map_of_eq_None_iff)
  then show "(distinct \<circ> map fst) (assign_raw k v es)" by simp
qed

text \<open>\<open>Object.keys(obj)\<close>, \<open>Object.values(obj)\<close> and the key-value pairs behind them\<close>

definition entries :: "(string, 'v) alist \<Rightarrow> (string \<times> 'v) list" where
  "entries obj = DAList.impl_of obj"

definition keys :: "(string, 'v) alist \<Rightarrow> string list" where
  "keys obj = map fst (entries obj)"

definition vals :: "(string, 'v) alist \<Rightarrow> 'v list" where
  "vals obj = map snd (entries obj)"

subsection \<open>Session state and the messages of the protocol\<close>

record GameState =
  players :: "(string, Player) alist"
  minion :: "Minion option"
  started :: bool
  lastHitTime :: number

text \<open>
  The parsed inbound message, by its \<open>type\<close> field. \<open>Other\<close> is any type the switch has
  no case for. The \<open>sourceId\<close> of a hit may be missing.
\<close>

datatype data =
    Join
  | SelectChar number
  | Move string number number number
  | StartGame
  | Hit string "string option" number
  | MinionHit number
  | Pickup string string
  | Other

datatype payload =
    Init GameState
  | PlayerJoin "(string \<times> number \<times> number \<times> Role) list"
  | PlayerUpdate Player
  | Update string number number number
  | GameStart GameState
  | HitMsg string number
  | MinionHitMsg number
  | MinionUpdate number number number
  | PickupMsg string string
  | GameOver string string

text \<open>\<open>room.broadcast(msg, without)\<close> and \<open>conn.send(msg)\<close>\<close>

datatype outbound = Broadcast payload "string list" | Send string payload

section \<open>The win-condition evaluator\<close>

definition checkWinCondition :: "GameState \<Rightarrow> outbound list" where
  "checkWinCondition state =
     (let aliveRunners = length (filter (\<lambda>p. role p = Runner \<and> hp p > Fin 0) (vals (players state)));
          aliveHunter = find (\<lambda>p. role p = Hunter \<and> hp p > Fin 0) (vals (players state));
          minionAlive = (case minion state of None \<Rightarrow> False | Some m \<Rightarrow> mhp m > Fin 0)
      in if aliveRunners = 0
         then [Broadcast (GameOver ''Hunter'' ''Runners Eliminated'') []]
         else if aliveHunter = None \<and> \<not> minionAlive
         then [Broadcast (GameOver ''Runners'' ''Hunter & Minion Defeated'') []]
         else [])"

section \<open>The message handler\<close>

definition new_player :: "string \<Rightarrow> Player" where
  "new_player c = \<lparr>pid = c, px = Fin 0, pz = Fin 0, rot = Fin 0, role = Runner, hp = Fin 100,
                   weapon = ''none'', charIndex = Fin 0\<rparr>"

definition initial_state :: GameState where
  "initial_state = \<lparr>players = DAList.empty, minion = None, started = False, lastHitTime = Fin 0\<rparr>"

text \<open>A write to a field of the object stored under a key: \<open>state.players[k].f = v\<close>.\<close>

definition modify :: "string \<Rightarrow> (Player \<Rightarrow> Player) \<Rightarrow> GameState \<Rightarrow> GameState" where
  "modify k f state = state\<lparr>players := DAList.map_entry k f (players state)\<rparr>"

text \<open>\<open>JSON.stringify\<close> of the roster summary sent on a join.\<close>

definition summary :: "Player \<Rightarrow> string \<times> number \<times> number \<times> Role" where
  "summary p = (pid p, charIndex p, hp p, role p)"

text \<open>
  \<open>playerIds[Math.floor(Math.random() * playerIds.length)]\<close>, where \<open>rnd\<close> is the value
  that \<open>Math.random()\<close> returns; an index outside the array reads \<open>undefined\<close>.
\<close>

definition pick_hunter :: "real \<Rightarrow> string list \<Rightarrow> string option" where
  "pick_hunter rnd playerIds =
     (let i = \<lfloor>rnd * real (length playerIds)\<rfloor>
      in if 0 \<le> i \<and> i < int (length playerIds) then Some (playerIds ! nat i) else None)"

text \<open>The body of the \<open>forEach\<close> of start-game, for one id.\<close>

definition reset_player :: "string option \<Rightarrow> string \<Rightarrow> GameState \<Rightarrow> GameState" where
  "reset_player hunterId k state =
     modify k (\<lambda>p. p\<lparr>role := (if Some k = hunterId then Hunter else Runner),
                     hp := Fin 100, weapon := ''none''\<rparr>) state"

text \<open>The truthiness test on \<open>data.sourceId\<close>: a missing field and the empty string fail it.\<close>

definition truthy :: "string option \<Rightarrow> bool" where
  "truthy v = (case v of None \<Rightarrow> False | Some s \<Rightarrow> s \<noteq> [])"

text \<open>
  The heal of the hit case, run after the damage has been written to the target: the source
  is looked up in the roster as it is then, so a source that is the target is read with its
  new hp.
\<close>

definition heal :: "string option \<Rightarrow> GameState \<Rightarrow> GameState" where
  "heal sourceId state =
     (case sourceId of
        None \<Rightarrow> state
      | Some sid \<Rightarrow>
          (case DAList.lookup (players state) sid of
             None \<Rightarrow> state
           | Some source \<Rightarrow>
               if role source = Hunter
               then modify sid (\<lambda>p. p\<lparr>hp := Math_min (Fin 150) (hp p + Fin 20)\<rparr>) state
               else state))"

fun dispatch :: "real \<Rightarrow> data \<Rightarrow> string \<Rightarrow> GameState \<Rightarrow> GameState \<times> outbound list" where
  "dispatch rnd Join conn state =
     (let state1 = state\<lparr>players := assign conn (new_player conn) (players state)\<rparr>
      in (state1, [Broadcast (PlayerJoin (map summary (vals (players state1)))) [],
                   Send conn (Init state1)]))"
| "dispatch rnd (SelectChar c) conn state =
     (case DAList.lookup (players state) conn of
        None \<Rightarrow> (state, [])
      | Some _ \<Rightarrow>
          (let state1 = modify conn (\<lambda>p. p\<lparr>charIndex := c\<rparr>) state
           in case DAList.lookup (players state1) conn of
                None \<Rightarrow> (state1, [])
              | Some p \<Rightarrow> (state1, [Broadcast (PlayerUpdate p) []])))"
| "dispatch rnd (Move k x z r) conn state =
     (case DAList.lookup (players state) k of
        None \<Rightarrow> (state, [])
      | Some _ \<Rightarrow>
          (modify k (\<lambda>p. p\<lparr>px := x, pz := z, rot := r\<rparr>) state,
           [Broadcast (Update k x z r) [conn]]))"
| "dispatch rnd StartGame conn state =
     (let playerIds = keys (players state)
      in if length playerIds = 0 then (state, [])
         else
           (let hunterId = pick_hunter rnd playerIds;
                state1 = fold (reset_player hunterId) (keys (players state)) state;
                state2 = state1\<lparr>minion := Some \<lparr>mx = Fin 0, mz = Fin 0, mhp = Fin 500\<rparr>\<rparr>;
                state3 = state2\<lparr>started := True\<rparr>
            in (state3, [Broadcast (GameStart state3) []])))"
| "dispatch rnd (Hit targetId sourceId damage) conn state =
     (case DAList.lookup (players state) targetId of
        None \<Rightarrow> (state, [])
      | Some _ \<Rightarrow>
          (let state1 = modify targetId (\<lambda>p. p\<lparr>hp := hp p - damage\<rparr>) state;
               state2 = modify targetId (\<lambda>p. if hp p < Fin 0 then p\<lparr>hp := Fin 0\<rparr> else p) state1
           in case DAList.lookup (players state2) targetId of
                None \<Rightarrow> (state2, [])
              | Some target \<Rightarrow>
                  (let state3 = (if hp target = Fin 0 \<and> truthy sourceId
                                 then heal sourceId state2 else state2)
                   in case DAList.lookup (players state3) targetId of
                        None \<Rightarrow> (state3, [])
                      | Some target' \<Rightarrow>
                          (state3, Broadcast (HitMsg targetId (hp target')) []
                                   # checkWinCondition state3))))"
| "dispatch rnd (MinionHit damage) conn state =
     (case minion state of
        None \<Rightarrow> (state, [])
      | Some m \<Rightarrow>
          (let m1 = m\<lparr>mhp := mhp m - damage\<rparr>;
               state1 = state\<lparr>minion := Some m1\<rparr>
           in if mhp m1 \<le> Fin 0
              then (let state2 = state1\<lparr>minion := None\<rparr>
                    in (state2, Broadcast (MinionHitMsg (mhp m1)) [] # checkWinCondition state2))
              else (state1, [Broadcast (MinionHitMsg (mhp m1)) []])))"
| "dispatch rnd (Pickup k w) conn state =
     (case DAList.lookup (players state) k of
        None \<Rightarrow> (state, [])
      | Some _ \<Rightarrow> (modify k (\<lambda>p. p\<lparr>weapon := w\<rparr>) state, [Broadcast (PickupMsg k w) []]))"
| "dispatch rnd Other conn state = (state, [])"

text \<open>
  The state slot of the room is empty until the first message creates the state.
  \<open>JSON.parse\<close> runs first: a message that does not parse (\<open>None\<close>) throws, and the handler
  ends there with the slot as it was.
\<close>

type_synonym room = "GameState option"

definition current :: "room \<Rightarrow> GameState" where
  "current r = (case r of None \<Rightarrow> initial_state | Some state \<Rightarrow> state)"

definition onMessage :: "real \<Rightarrow> data option \<Rightarrow> string \<Rightarrow> room \<Rightarrow> (room \<times> outbound list) option" where
  "onMessage rnd message conn r =
     (case message of
        None \<Rightarrow> None
      | Some d \<Rightarrow> (let (state, out) = dispatch rnd d conn (current r) in Some (Some state, out)))"

definition onConnect :: "string \<Rightarrow> room \<Rightarrow> outbound list" where
  "onConnect conn r = (case r of None \<Rightarrow> [] | Some state \<Rightarrow> [Send conn (Init state)])"

section \<open>The minion loop\<close>

text \<open>
  The search for the nearest runner: the body of the \<open>forEach\<close> over \<open>Object.values\<close>,
  with the pair \<open>(nearest, minDist)\<close> as its state. \<open>nearest\<close> is a reference to a
  player object of the roster; the model keeps the entry, so the key under which the object
  is stored.
\<close>

definition scan_step ::
  "Minion \<Rightarrow> string \<times> Player \<Rightarrow> (string \<times> Player) option \<times> number \<Rightarrow>
   (string \<times> Player) option \<times> number" where
  "scan_step m e acc =
     (if role (snd e) = Runner \<and> hp (snd e) > Fin 0
      then (let d = Math_hypot (px (snd e) - mx m) (pz (snd e) - mz m)
            in if d < snd acc then (Some e, d) else acc)
      else acc)"

definition find_nearest :: "Minion \<Rightarrow> GameState \<Rightarrow> (string \<times> Player) option \<times> number" where
  "find_nearest m state = fold (scan_step m) (entries (players state)) (None, Fin 9999)"

text \<open>
  The part of a tick under \<open>if (nearest)\<close>: it returns the state, the minion as it is
  then and the messages broadcast. The literal \<open>0.15\<close> is the double nearest to 15 / 100;
  \<open>3.5\<close> and \<open>0.5\<close> are doubles.
\<close>

definition chase ::
  "Minion \<Rightarrow> string \<times> Player \<Rightarrow> number \<Rightarrow> GameState \<Rightarrow> GameState \<times> Minion \<times> outbound list" where
  "chase m nearest minDist state =
     (let dx = px (snd nearest) - mx m;
          dz = pz (snd nearest) - mz m;
          len = Math_sqrt (dx * dx + dz * dz)
      in if len > Fin 0
         then
           (let speed = rd (15 / 100);
                m1 = m\<lparr>mx := mx m + (dx / len) * speed\<rparr>;
                m2 = m1\<lparr>mz := mz m1 + (dz / len) * speed\<rparr>;
                state1 = state\<lparr>minion := Some m2\<rparr>
            in if minDist < Fin (7 / 2)
               then
                 (let state2 = modify (fst nearest) (\<lambda>p. p\<lparr>hp := hp p - Fin (1 / 2)\<rparr>) state1;
                      state3 = modify (fst nearest) (\<lambda>p. if hp p < Fin 0 then p\<lparr>hp := Fin 0\<rparr> else p) state2
                  in case DAList.lookup (players state3) (fst nearest) of
                       None \<Rightarrow> (state3, m2, [])
                     | Some n \<Rightarrow>
                         (state3, m2, Broadcast (HitMsg (pid n) (hp n)) []
                                      # checkWinCondition state3))
               else (state1, m2, []))
         else (state, m, []))"

definition onTick :: "room \<Rightarrow> room \<times> outbound list" where
  "onTick r =
     (case r of
        None \<Rightarrow> (r, [])
      | Some state \<Rightarrow>
          if \<not> started state then (r, [])
          else
            (case minion state of
               None \<Rightarrow> (r, [])
             | Some m \<Rightarrow>
                 (let (nearest, minDist) = find_nearest m state;
                      (state', m', out) =
                        (case nearest of
                           None \<Rightarrow> (state, m, [])
                         | Some e \<Rightarrow> chase m e minDist state)
                  in (Some state', out @ [Broadcast (MinionUpdate (mx m') (mz m') (mhp m')) []]))))"

section \<open>Runs of a room\<close>

text \<open>
  What happens to a room: a client connects, a message arrives on a connection (with the
  value \<open>Math.random()\<close> would return during its handling, a real in \<open>[0, 1)\<close>), or the
  interval timer fires.
  Each handler runs to its end before the next starts.
\<close>

datatype event = Connect string | Message real "data option" string | Tick

fun step :: "event \<Rightarrow> room \<Rightarrow> room" where
  "step (Connect conn) r = r"
| "step (Message rnd message conn) r =
     (case onMessage rnd message conn r of None \<Rightarrow> r | Some (r', out) \<Rightarrow> r')"
| "step Tick r = fst (onTick r)"

definition run :: "event list \<Rightarrow> room \<Rightarrow> room" where
  "run evs r = fold step evs r"

text \<open>\<open>Math.random()\<close> returns a number in \<open>[0, 1)\<close>.\<close>

fun random_ok :: "event \<Rightarrow> bool" where
  "random_ok (Message rnd message conn) = (0 \<le> rnd \<and> rnd < 1)"
| "random_ok _ = True"


section \<open>Vocabulary of the properties\<close>

text \<open>The living Runners, by key; whether a living Hunter, a living Minion exists.\<close>

definition alive_runners :: "GameState \<Rightarrow> string set" where
  "alive_runners state =
     {k. \<exists>p. DAList.lookup (players state) k = Some p \<and> role p = Runner \<and> hp p > Fin 0}"

definition alive_hunter :: "GameState \<Rightarrow> bool" where
  "alive_hunter state \<longleftrightarrow>
     (\<exists>k p. DAList.lookup (players state) k = Some p \<and> role p = Hunter \<and> hp p > Fin 0)"

definition minion_alive :: "GameState \<Rightarrow> bool" where
  "minion_alive state \<longleftrightarrow> (\<exists>m. minion state = Some m \<and> mhp m > Fin 0)"

text \<open>The players of each role, in roster order.\<close>

definition hunters :: "GameState \<Rightarrow> Player list" where
  "hunters state = filter (\<lambda>p. role p = Hunter) (vals (players state))"

definition runners :: "GameState \<Rightarrow> Player list" where
  "runners state = filter (\<lambda>p. role p = Runner) (vals (players state))"

text \<open>The three field writes of the \<open>forEach\<close> body, as one function on the player.\<close>

definition reset :: "string option \<Rightarrow> string \<Rightarrow> Player \<Rightarrow> Player" where
  "reset h k p = p\<lparr>role := (if Some k = h then Hunter else Runner), hp := Fin 100, weapon := ''none''\<rparr>"

text \<open>The floor of the code: \<open>if (hp < 0) hp = 0\<close>. It lets NaN through.\<close>

definition clamp0 :: "number \<Rightarrow> number" where
  "clamp0 h = (if h < Fin 0 then Fin 0 else h)"

text \<open>A property of hp values that holds for every player of the roster.\<close>

definition all_hp :: "(number \<Rightarrow> bool) \<Rightarrow> GameState \<Rightarrow> bool" where
  "all_hp H state \<longleftrightarrow> list_all (\<lambda>p. H (hp p)) (vals (players state))"

text \<open>
  The words of the tick: a living Runner, and the distance from the Minion to a player as the
  search computes it.
\<close>

definition alive_runner :: "Player \<Rightarrow> bool" where
  "alive_runner p \<longleftrightarrow> role p = Runner \<and> hp p > Fin 0"

definition distance :: "Minion \<Rightarrow> Player \<Rightarrow> number" where
  "distance m p = Math_hypot (px p - mx m) (pz p - mz m)"

text \<open>The length that the movement computes for the same offsets.\<close>

definition move_length :: "Minion \<Rightarrow> Player \<Rightarrow> number" where
  "move_length m p =
     Math_sqrt ((px p - mx m) * (px p - mx m) + (pz p - mz m) * (pz p - mz m))"

text \<open>A join that arrives on the connection id of a player who is the Hunter.\<close>

definition rejoin_of_hunter :: "event \<Rightarrow> GameState \<Rightarrow> bool" where
  "rejoin_of_hunter e state \<longleftrightarrow>
     (case e of
        Message rnd (Some Join) conn \<Rightarrow>
          (case DAList.lookup (players state) conn of
             None \<Rightarrow> False
           | Some p \<Rightarrow> role p = Hunter)
      | _ \<Rightarrow> False)"

text \<open>The entries of the roster whose player is the Hunter.\<close>

definition hunter_entries :: "(string \<times> Player) list \<Rightarrow> (string \<times> Player) list" where
  "hunter_entries es = filter (\<lambda>e. role (snd e) = Hunter) es"

text \<open>The fields of a hit message; a hit with damage at least 0; the \<open>sourceId\<close> of a hit.\<close>

fun hit_of :: "event \<Rightarrow> (string \<times> string option \<times> number) option" where
  "hit_of (Message rnd (Some (Hit targetId sourceId damage)) conn) = Some (targetId, sourceId, damage)"
| "hit_of _ = None"

definition nonneg_hit :: "event \<Rightarrow> bool" where
  "nonneg_hit e = (case hit_of e of None \<Rightarrow> False | Some (t, s, d) \<Rightarrow> Fin 0 \<le> d)"

definition source_of :: "event \<Rightarrow> string option" where
  "source_of e = (case hit_of e of None \<Rightarrow> None | Some (t, s, d) \<Rightarrow> s)"

text \<open>A finite double that is at least 0.\<close>

definition nonneg_double :: "number \<Rightarrow> bool" where
  "nonneg_double h \<longleftrightarrow> (case h of Fin x \<Rightarrow> x \<in> doubles \<and> 0 \<le> x | _ \<Rightarrow> False)"

text \<open>The damage field of every hit message is a finite number.\<close>

fun finite_damage :: "event \<Rightarrow> bool" where
  "finite_damage (Message rnd (Some (Hit t s d)) conn) = (case d of Fin x \<Rightarrow> True | _ \<Rightarrow> False)"
| "finite_damage _ = True"

text \<open>
  An integer; a number that is an integer or \<open>Infinity\<close>; a number that is an integer multiple
  of 0.5 or \<open>Infinity\<close>.
\<close>

definition is_integer :: "number \<Rightarrow> bool" where
  "is_integer d \<longleftrightarrow> (case d of Fin x \<Rightarrow> x \<in> \<int> | _ \<Rightarrow> False)"

definition integral :: "number \<Rightarrow> bool" where
  "integral h \<longleftrightarrow> (case h of Fin x \<Rightarrow> x \<in> \<int> | PlusInf \<Rightarrow> True | _ \<Rightarrow> False)"

definition half_integral :: "number \<Rightarrow> bool" where
  "half_integral h \<longleftrightarrow> (case h of Fin x \<Rightarrow> 2 * x \<in> \<int> | PlusInf \<Rightarrow> True | _ \<Rightarrow> False)"

text \<open>The damage field of a hit or minion-hit message is an integer.\<close>

fun integer_damage :: "event \<Rightarrow> bool" where
  "integer_damage (Message rnd (Some (Hit t s d)) conn) = is_integer d"
| "integer_damage (Message rnd (Some (MinionHit d)) conn) = is_integer d"
| "integer_damage _ = True"

section \<open>Sessions used as examples\<close>

text \<open>Two players, the Hunter at hp 0 and a Runner at hp 50, and no Minion.\<close>

definition duel :: GameState where
  "duel = \<lparr>players = assign ''b'' ((new_player ''b'')\<lparr>hp := Fin 50\<rparr>)
                      (assign ''a'' ((new_player ''a'')\<lparr>role := Hunter, hp := Fin 0\<rparr>) DAList.empty),
           minion = None, started = True, lastHitTime = Fin 0\<rparr>"

text \<open>A Minion at hp 10 takes 15 damage.\<close>

definition last_stand :: GameState where
  "last_stand = \<lparr>players = assign ''a'' (new_player ''a'') DAList.empty,
                 minion = Some \<lparr>mx = Fin 0, mz = Fin 0, mhp = Fin 10\<rparr>, started = True, lastHitTime = Fin 0\<rparr>"



text \<open>Three clients have joined a fresh room.\<close>

definition lobby :: room where
  "lobby = run [Message 0 (Some Join) ''a'', Message 0 (Some Join) ''b'',
                Message 0 (Some Join) ''c''] None"

text \<open>
  Two clients join and a game starts with \<open>Math.random()\<close> returning 0: \<open>a\<close> is the
  Hunter, \<open>b\<close> a Runner, and both stand at the origin, where the Minion is spawned.
\<close>

definition arena_events :: "event list" where
  "arena_events = [Message 0 (Some Join) ''a'', Message 0 (Some Join) ''b'',
                   Message 0 (Some StartGame) ''a'']"

definition arena :: GameState where
  "arena = \<lparr>players = assign ''b'' (new_player ''b'')
                        (assign ''a'' ((new_player ''a'')\<lparr>role := Hunter\<rparr>) DAList.empty),
            minion = Some \<lparr>mx = Fin 0, mz = Fin 0, mhp = Fin 500\<rparr>, started = True, lastHitTime = Fin 0\<rparr>"

text \<open>The Runner of the arena has moved to (1, 0), or far away to (10000, 0).\<close>

definition sparring :: GameState where
  "sparring = fst (dispatch 0 (Move ''b'' (Fin 1) (Fin 0) (Fin 0)) ''b'' arena)"

definition far_arena :: GameState where
  "far_arena = fst (dispatch 0 (Move ''b'' (Fin 10000) (Fin 0) (Fin 0)) ''b'' arena)"

text \<open>The Runner of the arena has moved to \<open>(2 ^ -600, 0)\<close>.\<close>

definition tiny_arena :: GameState where
  "tiny_arena = fst (dispatch 0 (Move ''b'' (Fin (2 powi (- 600))) (Fin 0) (Fin 0)) ''b'' arena)"

text \<open>In the arena the Hunter hits the Runner for 100.\<close>

definition kill_shot :: event where
  "kill_shot = Message 0 (Some (Hit ''b'' (Some ''a'') (Fin 100))) ''a''"

text \<open>The Runner moves to (1, 0), is hit for 1, and a tick runs.\<close>

definition graze_events :: "event list" where
  "graze_events = [Message 0 (Some (Move ''b'' (Fin 1) (Fin 0) (Fin 0))) ''b'',
                   Message 0 (Some (Hit ''b'' None (Fin 1))) ''a'', Tick]"

definition grazed :: GameState where
  "grazed = fst (dispatch 0 (Hit ''b'' None (Fin 1)) ''a'' sparring)"

section \<open>Facts about numbers\<close>

lemma finite_doubles: "finite doubles"
  unfolding doubles_def by (intro finite_imageI finite_cartesian_product) simp_all

lemma doublesI:
  "\<bar>m\<bar> < 2 ^ 53 \<Longrightarrow> - 1074 \<le> e \<Longrightarrow> e \<le> 971 \<Longrightarrow> real_of_int m * 2 powi e \<in> doubles"
  unfolding doubles_def by (intro image_eqI [where x = "(m, e)"]) auto

lemma doublesE:
  assumes "c \<in> doubles"
  obtains m e :: int where "\<bar>m\<bar> < 2 ^ 53" "- 1074 \<le> e" "e \<le> 971" "c = real_of_int m * 2 powi e"
proof -
  from assms obtain m e :: int where "m \<in> {- (2 ^ 53) <..< 2 ^ 53}" "e \<in> {- 1074 .. 971}"
    "c = real_of_int m * 2 powi e"
    unfolding doubles_def by auto
  then show ?thesis by (intro that [of m e]) auto
qed

lemma int_double: "\<bar>m\<bar> < 2 ^ 53 \<Longrightarrow> real_of_int m \<in> doubles"
  using doublesI [of m 0] by simp

lemma half_double: "\<bar>m\<bar> < 2 ^ 53 \<Longrightarrow> real_of_int m / 2 \<in> doubles"
  using doublesI [of m "- 1"] by (simp add: power_int_minus field_simps)

lemma nearest_nonempty: "nearest_doubles x \<noteq> {}"
proof -
  have ne: "doubles \<noteq> {}" using int_double [of 0] by auto
  let ?c = "arg_min_on (\<lambda>c. \<bar>c - x\<bar>) doubles"
  from arg_min_if_finite [OF finite_doubles ne, of "\<lambda>c. \<bar>c - x\<bar>"]
  have "?c \<in> doubles" "\<forall>c' \<in> doubles. \<bar>?c - x\<bar> \<le> \<bar>c' - x\<bar>"
    by (auto simp: not_less)
  then show ?thesis by (auto simp: nearest_doubles_def)
qed

lemma round_nearest: "round_nearest_even x \<in> nearest_doubles x"
proof (cases "\<exists>c \<in> nearest_doubles x. even_double c")
  case True
  then have "\<exists>c. c \<in> nearest_doubles x \<and> even_double c" by blast
  from someI_ex [OF this] True show ?thesis by (simp add: round_nearest_even_def)
next
  case False
  from nearest_nonempty have "\<exists>c. c \<in> nearest_doubles x" by blast
  from someI_ex [OF this] False show ?thesis by (simp add: round_nearest_even_def)
qed

lemma round_double: "round_nearest_even x \<in> doubles"
  using round_nearest [of x] by (simp add: nearest_doubles_def)

lemma round_closest: "c \<in> doubles \<Longrightarrow> \<bar>round_nearest_even x - x\<bar> \<le> \<bar>c - x\<bar>"
  using round_nearest [of x] by (simp add: nearest_doubles_def)

lemma round_exact: "x \<in> doubles \<Longrightarrow> round_nearest_even x = x"
  using round_closest [of x x] by simp

lemma round_ge: "c \<in> doubles \<Longrightarrow> c \<le> x \<Longrightarrow> c \<le> round_nearest_even x"
  using round_closest [of c x] by linarith

lemma round_le: "c \<in> doubles \<Longrightarrow> x \<le> c \<Longrightarrow> round_nearest_even x \<le> c"
  using round_closest [of c x] by linarith

lemma double_bound:
  assumes "c \<in> doubles"
  shows "\<bar>c\<bar> < 2 ^ 1024 - 2 ^ 970"
proof -
  from assms obtain m e :: int where m: "\<bar>m\<bar> < 2 ^ 53" and e: "e \<le> 971"
    and c: "c = real_of_int m * 2 powi e" by (rule doublesE)
  from m have "\<bar>m\<bar> \<le> 2 ^ 53 - 1" by simp
  then have "real_of_int \<bar>m\<bar> \<le> real_of_int (2 ^ 53 - 1)" by (simp only: of_int_le_iff)
  then have "\<bar>real_of_int m\<bar> \<le> 2 ^ 53 - 1" by simp
  moreover have "(2::real) powi e \<le> 2 powi 971"
    using e by (intro power_int_increasing) simp_all
  ultimately have "\<bar>c\<bar> \<le> (2 ^ 53 - 1) * 2 ^ 971"
    unfolding c abs_mult by (intro mult_mono) (simp_all)
  also have "\<dots> < (2::real) ^ 1024 - 2 ^ 970" by simp
  finally show ?thesis .
qed

lemma rd_exact: "x \<in> doubles \<Longrightarrow> rd x = Fin x"
  using double_bound [of x] by (simp add: rd_def round_exact abs_less_iff)

lemma rd_int [simp]: "x \<in> \<int> \<Longrightarrow> \<bar>x\<bar> < 2 ^ 53 \<Longrightarrow> rd x = Fin x"
proof -
  assume "x \<in> \<int>" "\<bar>x\<bar> < 2 ^ 53"
  then obtain m :: int where m: "x = real_of_int m" by (auto elim!: Ints_cases)
  with \<open>\<bar>x\<bar> < 2 ^ 53\<close> have "real_of_int \<bar>m\<bar> < real_of_int (2 ^ 53)" by simp
  then have "\<bar>m\<bar> < 2 ^ 53" by (simp only: of_int_less_iff)
  with m have "x = real_of_int m" "\<bar>m\<bar> < 2 ^ 53" by simp_all
  then show ?thesis using int_double [of m] by (simp add: rd_exact)
qed

lemma rd_half [simp]: "2 * x \<in> \<int> \<Longrightarrow> \<bar>x\<bar> < 2 ^ 52 \<Longrightarrow> rd x = Fin x"
proof -
  assume "2 * x \<in> \<int>" "\<bar>x\<bar> < 2 ^ 52"
  then obtain m :: int where m: "2 * x = real_of_int m" by (auto elim!: Ints_cases)
  with \<open>\<bar>x\<bar> < 2 ^ 52\<close> have "real_of_int \<bar>m\<bar> < real_of_int (2 ^ 53)" by simp
  then have "\<bar>m\<bar> < 2 ^ 53" by (simp only: of_int_less_iff)
  then have "real_of_int m / 2 \<in> doubles" by (rule half_double)
  moreover from m have "real_of_int m / 2 = x" by simp
  ultimately have "x \<in> doubles" by simp
  then show ?thesis by (rule rd_exact)
qed

lemma rd_cases:
  obtains "rd x = PlusInf" "2 ^ 1024 - 2 ^ 970 \<le> x"
  | "rd x = MinusInf" "x \<le> - (2 ^ 1024 - 2 ^ 970)"
  | y where "rd x = Fin y" "y \<in> doubles" "y = round_nearest_even x"
proof -
  consider "2 ^ 1024 - 2 ^ 970 \<le> x" | "\<not> 2 ^ 1024 - 2 ^ 970 \<le> x" "x \<le> - (2 ^ 1024 - 2 ^ 970)"
    | "\<not> 2 ^ 1024 - 2 ^ 970 \<le> x" "\<not> x \<le> - (2 ^ 1024 - 2 ^ 970)" by blast
  then show thesis
  proof cases
    case 1
    then have "rd x = PlusInf" unfolding rd_def by (simp only: if_True)
    with 1 that(1) show ?thesis by blast
  next
    case 2
    then have "rd x = MinusInf" unfolding rd_def by (simp only: if_True if_False)
    with 2 that(2) show ?thesis by blast
  next
    case 3
    then have "rd x = Fin (round_nearest_even x)" unfolding rd_def by (simp only: if_False)
    with that(3) round_double show ?thesis by blast
  qed
qed

lemma rd_ge:
  assumes "c \<in> doubles" "c \<le> x"
  obtains "rd x = PlusInf" | y where "rd x = Fin y" "y \<in> doubles" "c \<le> y"
proof (cases x rule: rd_cases)
  case 2
  with assms double_bound [of c] show ?thesis by (simp add: abs_less_iff)
next
  case (3 y)
  with round_ge [OF assms] that(2) show ?thesis by simp
qed (rule that(1))

lemma rd_le:
  assumes "c \<in> doubles" "x \<le> c"
  obtains "rd x = MinusInf" | y where "rd x = Fin y" "y \<in> doubles" "y \<le> c"
proof (cases x rule: rd_cases)
  case 1
  with assms double_bound [of c] show ?thesis by (simp add: abs_less_iff)
next
  case (3 y)
  with round_le [OF assms] that(2) show ?thesis by simp
qed (rule that(1))

lemma zero_double [simp]: "0 \<in> doubles"
  using int_double [of 0] by simp

lemma numeral_double: "x \<in> \<int> \<Longrightarrow> \<bar>x\<bar> < 2 ^ 53 \<Longrightarrow> x \<in> doubles"
proof -
  assume "x \<in> \<int>" "\<bar>x\<bar> < 2 ^ 53"
  then obtain m :: int where m: "x = real_of_int m" by (auto elim!: Ints_cases)
  with \<open>\<bar>x\<bar> < 2 ^ 53\<close> have "real_of_int \<bar>m\<bar> < real_of_int (2 ^ 53)" by simp
  then have "\<bar>m\<bar> < 2 ^ 53" by (simp only: of_int_less_iff)
  with m show ?thesis using int_double [of m] by simp
qed

lemma less_eq_simps [simp]:
  "Fin x \<le> Fin y \<longleftrightarrow> x \<le> y" "\<not> NaN \<le> b" "\<not> a \<le> NaN"
  "Fin x \<le> PlusInf" "\<not> PlusInf \<le> Fin y" "MinusInf \<le> Fin y" "\<not> Fin x \<le> MinusInf"
  "PlusInf \<le> PlusInf" "MinusInf \<le> MinusInf" "MinusInf \<le> PlusInf" "\<not> PlusInf \<le> MinusInf"
  by (cases a; cases b; auto simp: less_eq_number_def)+

lemma clamp0_simps:
  "clamp0 NaN = NaN" "clamp0 PlusInf = PlusInf" "clamp0 MinusInf = Fin 0"
  "clamp0 (Fin x) = Fin (max 0 x)"
  by (auto simp: clamp0_def max_def)

lemma clamp0_zero_minus: "Fin 0 \<le> d \<Longrightarrow> clamp0 (Fin 0 - d) = Fin 0"
proof (cases d)
  case (Fin x)
  assume "Fin 0 \<le> d"
  with Fin have "0 \<le> x" by simp
  then have "0 - x \<le> 0" by simp
  with zero_double show ?thesis
    unfolding Fin minus_number.simps by (rule rd_le) (simp_all add: clamp0_simps max_def)
qed (simp_all add: clamp0_simps)

lemma rd_underflow:
  assumes "\<bar>x\<bar> < 2 powi (- 1075)"
  shows "rd x = Fin 0"
proof -
  define u :: real where "u = 2 powi (- 1075)"
  define s :: real where "s = 2 powi (- 1074)"
  have su: "s = 2 * u"
  proof -
    have "(2 :: real) powi (- 1074) = 2 powi 1 * 2 powi (- 1075)"
      unfolding power_int_add [symmetric] by simp
    then show ?thesis by (simp add: s_def u_def)
  qed
  have x: "\<bar>x\<bar> < u" using assms by (simp only: u_def)
  have nz: "s \<le> \<bar>c\<bar>" if "c \<in> doubles" "c \<noteq> 0" for c
  proof -
    from that(1) obtain m e :: int where me: "- 1074 \<le> e" "c = real_of_int m * 2 powi e"
      by (rule doublesE)
    from that(2) me(2) have "m \<noteq> 0" by auto
    then have "1 \<le> \<bar>m\<bar>" by simp
    then have "real_of_int 1 \<le> real_of_int \<bar>m\<bar>" by (simp only: of_int_le_iff)
    then have m: "1 \<le> real_of_int \<bar>m\<bar>" by simp
    have e: "s \<le> 2 powi e" unfolding s_def using me(1) by (intro power_int_increasing) simp_all
    have "0 < s" by (simp add: s_def)
    have "1 * s \<le> real_of_int \<bar>m\<bar> * 2 powi e"
      using m e \<open>0 < s\<close> by (intro mult_mono) simp_all
    also have "\<dots> = \<bar>c\<bar>" by (simp add: me(2) abs_mult)
    finally show ?thesis by simp
  qed
  have "round_nearest_even x = 0"
  proof (rule ccontr)
    assume "round_nearest_even x \<noteq> 0"
    with round_double have "s \<le> \<bar>round_nearest_even x\<bar>" by (rule nz)
    moreover have "\<bar>round_nearest_even x - x\<bar> \<le> \<bar>0 - x\<bar>"
      using zero_double by (rule round_closest)
    ultimately show False using x su by linarith
  qed
  moreover have "u < 1" unfolding u_def by (simp add: power_int_minus inverse_less_1_iff)
  moreover have "(1 :: real) \<le> 2 ^ 1024 - 2 ^ 970" by simp
  ultimately show ?thesis unfolding rd_def using x by (auto simp: abs_less_iff)
qed

section \<open>Facts about the roster\<close>

lemma set_insert_index: "set (insert_index k v es) = insert (k, v) (set es)"
  by (induction es) auto

lemma distinct_insert_index:
  "distinct (map fst es) \<Longrightarrow> k \<notin> fst ` set es \<Longrightarrow> distinct (map fst (insert_index k v es))"
  by (induction es) (auto simp: set_insert_index)

lemma distinct_assign_raw:
  "distinct (map fst es) \<Longrightarrow> distinct (map fst (assign_raw k v es))"
  by (auto simp: assign_raw_def distinct_update distinct_insert_index map_of_eq_None_iff)

lemma entries_distinct [simp]: "distinct (map fst (entries obj))"
  by (simp add: entries_def)

lemma lookup_entries: "DAList.lookup obj k = map_of (entries obj) k"
  by (simp add: entries_def lookup.rep_eq)

lemma entries_empty [simp]: "entries DAList.empty = []"
  by (simp add: entries_def empty.rep_eq)

lemma map_entry_as_map:
  "distinct (map fst es) \<Longrightarrow>
   AList.map_entry k f es = map (\<lambda>e. if fst e = k then (fst e, f (snd e)) else e) es"
proof (induction es)
  case Nil
  then show ?case by simp
next
  case (Cons e es)
  have "map (\<lambda>e. if fst e = k then (fst e, f (snd e)) else e) es = es" if "fst e = k"
  proof (rule map_idI)
    fix x assume "x \<in> set es"
    with Cons.prems that have "fst x \<noteq> k" by (auto simp: image_iff)
    then show "(if fst x = k then (fst x, f (snd x)) else x) = x" by simp
  qed
  with Cons show ?case by auto
qed

lemma entries_map_entry:
  "entries (DAList.map_entry k f obj) =
   map (\<lambda>e. if fst e = k then (fst e, f (snd e)) else e) (entries obj)"
  by (simp add: entries_def map_entry.rep_eq map_entry_as_map)

lemma keys_map_entry [simp]: "keys (DAList.map_entry k f obj) = keys obj"
  by (simp add: keys_def entries_map_entry comp_def if_distrib cong: if_cong)

lemma entries_assign: "entries (assign k v obj) = assign_raw k v (entries obj)"
  by (simp add: entries_def assign.rep_eq)

lemma map_of_insert_index:
  "k \<notin> fst ` set es \<Longrightarrow> map_of (insert_index k v es) = (map_of es)(k \<mapsto> v)"
  by (induction es) (auto simp: fun_eq_iff)

lemma map_of_assign_raw: "map_of (assign_raw k v es) = (map_of es)(k \<mapsto> v)"
proof (cases "map_of es k")
  case None
  then have "k \<notin> fst ` set es" by (simp add: map_of_eq_None_iff)
  with None show ?thesis
    by (auto simp: assign_raw_def map_of_insert_index fun_eq_iff map_add_def split: option.splits)
next
  case (Some a)
  then show ?thesis by (simp add: assign_raw_def update_conv')
qed

lemma lookup_assign:
  "DAList.lookup (assign k v obj) k' = (if k' = k then Some v else DAList.lookup obj k')"
  by (simp add: lookup_entries entries_assign map_of_assign_raw)

lemma lookup_map_entry:
  "DAList.lookup (DAList.map_entry k f obj) k' =
   (if k' = k then map_option f (DAList.lookup obj k) else DAList.lookup obj k')"
  by (simp add: lookup.rep_eq map_entry.rep_eq map_of_map_entry split: option.splits)

lemma in_vals_iff: "p \<in> set (vals obj) \<longleftrightarrow> (\<exists>k. DAList.lookup obj k = Some p)"
  by (force simp: vals_def lookup_entries)

lemma in_entries_iff: "(k, p) \<in> set (entries obj) \<longleftrightarrow> DAList.lookup obj k = Some p"
  by (simp add: lookup_entries)

section \<open>The decision of the evaluator\<close>

lemma finite_alive_runners: "finite (alive_runners state)"
proof (rule finite_subset)
  show "alive_runners state \<subseteq> set (keys (players state))"
    by (auto simp: alive_runners_def keys_def lookup_entries dest!: map_of_SomeD intro: rev_image_eqI)
qed simp

lemma no_alive_runner_iff:
  "filter (\<lambda>p. role p = Runner \<and> hp p > Fin 0) (vals (players state)) = [] \<longleftrightarrow>
   alive_runners state = {}"
  by (auto simp: filter_empty_conv in_vals_iff alive_runners_def)

lemma find_hunter_iff:
  "find (\<lambda>p. role p = Hunter \<and> hp p > Fin 0) (vals (players state)) = None \<longleftrightarrow> \<not> alive_hunter state"
  by (auto simp: find_None_iff in_vals_iff alive_hunter_def)

text \<open>
  C3. The evaluator broadcasts game-over for the Hunter, reason "Runners Eliminated", whenever
  the number of players with role Runner and hp above 0 is 0, whatever the Hunter's hp and the
  Minion are; otherwise it broadcasts game-over for the Runners, reason "Hunter & Minion
  Defeated", exactly when no Hunter has hp above 0 and no Minion with hp above 0 is present;
  otherwise it broadcasts nothing.
\<close>

theorem checkWinCondition_decision:
  "checkWinCondition state =
     (if card (alive_runners state) = 0
      then [Broadcast (GameOver ''Hunter'' ''Runners Eliminated'') []]
      else if \<not> alive_hunter state \<and> \<not> minion_alive state
      then [Broadcast (GameOver ''Runners'' ''Hunter & Minion Defeated'') []]
      else [])"
proof -
  have m: "(case minion state of None \<Rightarrow> False | Some m \<Rightarrow> mhp m > Fin 0) = minion_alive state"
    by (simp add: minion_alive_def split: option.splits)
  show ?thesis
    unfolding checkWinCondition_def Let_def m
    by (simp add: no_alive_runner_iff find_hunter_iff finite_alive_runners)
qed

theorem checkWinCondition_decision_witness:
  "alive_runners duel = {''b''} \<and> \<not> alive_hunter duel \<and> \<not> minion_alive duel \<and>
   checkWinCondition duel = [Broadcast (GameOver ''Runners'' ''Hunter & Minion Defeated'') []]"
proof -
  have a: "alive_runners duel = {''b''}"
    by (auto simp: alive_runners_def duel_def lookup_assign new_player_def split: if_splits)
  have b: "\<not> alive_hunter duel"
    by (auto simp: alive_hunter_def duel_def lookup_assign new_player_def split: if_splits)
  have c: "\<not> minion_alive duel"
    by (simp add: minion_alive_def duel_def)
  show ?thesis
    using checkWinCondition_decision [of duel] a b c by simp
qed

lemma lookup_modify:
  "DAList.lookup (players (modify k f state)) k' =
   (if k' = k then map_option f (DAList.lookup (players state) k)
    else DAList.lookup (players state) k')"
  by (simp add: modify_def lookup_map_entry)

lemma modify_other [simp]:
  "minion (modify k f state) = minion state" "started (modify k f state) = started state"
  "lastHitTime (modify k f state) = lastHitTime state"
  by (simp_all add: modify_def)

section \<open>Hits on the Minion\<close>

text \<open>
  C6. A minion-hit with no Minion present leaves the state as it is and broadcasts nothing.
  With a Minion present its hp is decreased by the damage with no lower clamp (the hp
  broadcast may be negative), the Minion is removed if and only if the resulting hp is at
  most 0, and the broadcasts of the evaluator follow exactly in that case, computed on the
  state without the Minion.
\<close>

theorem minion_hit_effect:
  "(minion state = None \<longrightarrow> dispatch rnd (MinionHit damage) conn state = (state, [])) \<and>
   (\<forall>m. minion state = Some m \<longrightarrow>
      dispatch rnd (MinionHit damage) conn state =
        (if mhp m - damage \<le> Fin 0
         then (state\<lparr>minion := None\<rparr>,
               Broadcast (MinionHitMsg (mhp m - damage)) []
               # checkWinCondition (state\<lparr>minion := None\<rparr>))
         else (state\<lparr>minion := Some (m\<lparr>mhp := mhp m - damage\<rparr>)\<rparr>,
               [Broadcast (MinionHitMsg (mhp m - damage)) []])))"
  by (simp add: Let_def)

theorem minion_hit_effect_witness:
  "minion last_stand = Some \<lparr>mx = Fin 0, mz = Fin 0, mhp = Fin 10\<rparr> \<and>
   minion (fst (dispatch 0 (MinionHit (Fin 15)) ''a'' last_stand)) = None \<and>
   snd (dispatch 0 (MinionHit (Fin 15)) ''a'' last_stand) =
     Broadcast (MinionHitMsg (Fin (- 5))) [] # checkWinCondition (last_stand\<lparr>minion := None\<rparr>)"
proof -
  have m: "minion last_stand = Some \<lparr>mx = Fin 0, mz = Fin 0, mhp = Fin 10\<rparr>"
    by (simp add: last_stand_def)
  from minion_hit_effect [of last_stand 0 "Fin 15" "''a''"] m
  have "dispatch 0 (MinionHit (Fin 15)) ''a'' last_stand =
          (last_stand\<lparr>minion := None\<rparr>,
           Broadcast (MinionHitMsg (Fin (- 5))) [] # checkWinCondition (last_stand\<lparr>minion := None\<rparr>))"
    by (simp add: less_eq_number_def)
  with m show ?thesis by simp
qed

section \<open>Hits on players\<close>

lemma hit_lookup:
  assumes "DAList.lookup (players state) targetId = Some target"
  shows "DAList.lookup (players (fst (dispatch rnd (Hit targetId sourceId damage) conn state))) =
           (let mid = (DAList.lookup (players state))
                        (targetId \<mapsto> target\<lparr>hp := clamp0 (hp target - damage)\<rparr>)
            in case sourceId of
                 None \<Rightarrow> mid
               | Some sid \<Rightarrow>
                   (case mid sid of
                      None \<Rightarrow> mid
                    | Some source \<Rightarrow>
                        if clamp0 (hp target - damage) = Fin 0 \<and> sid \<noteq> [] \<and> role source = Hunter
                        then mid(sid \<mapsto> source\<lparr>hp := Math_min (Fin 150) (hp source + Fin 20)\<rparr>)
                        else mid))"
    and "hp target = Fin 0 \<and> Fin 0 \<le> damage \<and> sourceId = Some sid \<and> sid \<noteq> [] \<and>
         DAList.lookup (players state) sid = Some source \<and> role source = Hunter \<longrightarrow>
         map_option hp (DAList.lookup
           (players (fst (dispatch rnd (Hit targetId sourceId damage) conn state))) sid) =
           Some (Math_min (Fin 150) (hp source + Fin 20))"
proof -
  define hp1 where "hp1 = clamp0 (hp target - damage)"
  define state2 where
    "state2 = modify targetId (\<lambda>p. if hp p < Fin 0 then p\<lparr>hp := Fin 0\<rparr> else p)
                (modify targetId (\<lambda>p. p\<lparr>hp := hp p - damage\<rparr>) state)"
  define mid where "mid = (DAList.lookup (players state))(targetId \<mapsto> target\<lparr>hp := hp1\<rparr>)"
  have clamp: "(if hp target - damage < Fin 0 then (target\<lparr>hp := hp target - damage\<rparr>)\<lparr>hp := Fin 0\<rparr>
                else target\<lparr>hp := hp target - damage\<rparr>) = target\<lparr>hp := hp1\<rparr>"
    by (simp add: hp1_def clamp0_def)
  have mid: "DAList.lookup (players state2) = mid"
    using assms clamp by (auto simp: state2_def mid_def lookup_modify fun_eq_iff)
  have t2: "DAList.lookup (players state2) targetId = Some (target\<lparr>hp := hp1\<rparr>)"
    by (simp add: mid mid_def)
  define state3 where
    "state3 = (if hp1 = Fin 0 \<and> truthy sourceId then heal sourceId state2 else state2)"
  have heal: "DAList.lookup (players (heal sourceId state2)) =
               (case sourceId of
                  None \<Rightarrow> mid
                | Some sid \<Rightarrow>
                    (case mid sid of
                       None \<Rightarrow> mid
                     | Some source \<Rightarrow>
                         if role source = Hunter
                         then mid(sid \<mapsto> source\<lparr>hp := Math_min (Fin 150) (hp source + Fin 20)\<rparr>) else mid))"
    by (auto simp: heal_def mid lookup_modify fun_eq_iff split: option.splits)
  have l3: "DAList.lookup (players state3) =
              (case sourceId of
                 None \<Rightarrow> mid
               | Some sid \<Rightarrow>
                   (case mid sid of
                      None \<Rightarrow> mid
                    | Some source \<Rightarrow>
                        if hp1 = Fin 0 \<and> sid \<noteq> [] \<and> role source = Hunter
                        then mid(sid \<mapsto> source\<lparr>hp := Math_min (Fin 150) (hp source + Fin 20)\<rparr>) else mid))"
    unfolding state3_def by (auto simp: heal mid truthy_def split: option.splits)
  have "DAList.lookup (players state3) targetId \<noteq> None"
    unfolding l3 by (auto simp: mid_def split: option.splits)
  then have res: "fst (dispatch rnd (Hit targetId sourceId damage) conn state) = state3"
    using assms t2
    by (auto simp: Let_def state3_def state2_def split: option.splits)
  show "DAList.lookup (players (fst (dispatch rnd (Hit targetId sourceId damage) conn state))) =
           (let mid = (DAList.lookup (players state))
                        (targetId \<mapsto> target\<lparr>hp := clamp0 (hp target - damage)\<rparr>)
            in case sourceId of
                 None \<Rightarrow> mid
               | Some sid \<Rightarrow>
                   (case mid sid of
                      None \<Rightarrow> mid
                    | Some source \<Rightarrow>
                        if clamp0 (hp target - damage) = Fin 0 \<and> sid \<noteq> [] \<and> role source = Hunter
                        then mid(sid \<mapsto> source\<lparr>hp := Math_min (Fin 150) (hp source + Fin 20)\<rparr>)
                        else mid))"
    unfolding res l3 Let_def mid_def hp1_def ..
  show "hp target = Fin 0 \<and> Fin 0 \<le> damage \<and> sourceId = Some sid \<and> sid \<noteq> [] \<and>
         DAList.lookup (players state) sid = Some source \<and> role source = Hunter \<longrightarrow>
         map_option hp (DAList.lookup
           (players (fst (dispatch rnd (Hit targetId sourceId damage) conn state))) sid) =
           Some (Math_min (Fin 150) (hp source + Fin 20))"
    unfolding res l3 using assms by (auto simp: mid_def hp1_def clamp0_zero_minus)
qed



section \<open>Starting a game\<close>

lemma entries_modify:
  "entries (players (modify k f state)) =
   map (\<lambda>e. if fst e = k then (fst e, f (snd e)) else e) (entries (players state))"
  by (simp add: modify_def entries_map_entry)

lemma keys_modify [simp]: "keys (players (modify k f state)) = keys (players state)"
  by (simp add: modify_def)

lemma not_array_index: "\<not> is_digit (hd k) \<Longrightarrow> \<not> is_array_index k"
  by (cases k) (auto simp: is_array_index_def)

lemma entries_lobby:
  "entries (players (current lobby)) =
     [(''a'', new_player ''a''), (''b'', new_player ''b''), (''c'', new_player ''c'')]"
  by (simp add: lobby_def run_def onMessage_def current_def initial_state_def entries_assign
      assign_raw_def not_array_index is_digit_def Let_def)

lemma fold_reset_entries:
  "entries (players (fold (reset_player h) ks state)) =
   map (\<lambda>e. if fst e \<in> set ks then (fst e, reset h (fst e) (snd e)) else e)
     (entries (players state))"
proof (induction ks arbitrary: state)
  case Nil
  then show ?case by simp
next
  case (Cons k ks)
  have idem: "reset h k' (reset h k' p) = reset h k' p" for k' p
    by (simp add: reset_def)
  have one: "entries (players (reset_player h k state)) =
               map (\<lambda>e. if fst e = k then (fst e, reset h (fst e) (snd e)) else e)
                 (entries (players state))"
    by (simp add: reset_player_def entries_modify reset_def)
  have "entries (players (fold (reset_player h) (k # ks) state)) =
          map (\<lambda>e. if fst e \<in> set ks then (fst e, reset h (fst e) (snd e)) else e)
            (entries (players (reset_player h k state)))"
    by (simp add: Cons.IH)
  also have "\<dots> = map (\<lambda>e. if fst e \<in> set (k # ks) then (fst e, reset h (fst e) (snd e)) else e)
                      (entries (players state))"
    unfolding one by (auto simp: idem)
  finally show ?case .
qed

lemma fold_reset_other:
  "minion (fold (reset_player h) ks state) = minion state"
  "started (fold (reset_player h) ks state) = started state"
  "lastHitTime (fold (reset_player h) ks state) = lastHitTime state"
  by (induction ks arbitrary: state) (simp_all add: reset_player_def)

lemma pick_hunter_in_range:
  assumes "0 \<le> rnd" "rnd < 1" "ks \<noteq> []"
  shows "\<exists>i < length ks. pick_hunter rnd ks = Some (ks ! i)"
proof -
  let ?n = "real (length ks)"
  have n: "0 < ?n" using assms(3) by simp
  have lo: "0 \<le> \<lfloor>rnd * ?n\<rfloor>" using assms(1) by simp
  have "rnd * ?n < ?n" using assms(2) n by simp
  then have hi: "\<lfloor>rnd * ?n\<rfloor> < int (length ks)" by (simp add: floor_less_iff)
  from lo hi have "nat \<lfloor>rnd * ?n\<rfloor> < length ks" by linarith
  with lo hi show ?thesis by (auto simp: pick_hunter_def Let_def)
qed

lemma distinct_one_occurrence:
  "distinct xs \<Longrightarrow> i < length xs \<Longrightarrow> length (filter (\<lambda>x. x = xs ! i) xs) = 1"
proof (induction xs arbitrary: i)
  case Nil
  then show ?case by simp
next
  case (Cons x xs)
  show ?case
  proof (cases i)
    case 0
    with Cons.prems have "filter (\<lambda>y. y = x) xs = []" by (auto simp: filter_empty_conv)
    with 0 show ?thesis by simp
  next
    case (Suc j)
    with Cons.prems have "xs ! j \<noteq> x" by auto
    with Suc Cons show ?thesis by auto
  qed
qed

lemma start_game_state:
  assumes "keys (players state) \<noteq> []"
  shows "dispatch rnd StartGame conn state =
           (let state' = (fold (reset_player (pick_hunter rnd (keys (players state))))
                            (keys (players state)) state)
                          \<lparr>minion := Some \<lparr>mx = Fin 0, mz = Fin 0, mhp = Fin 500\<rparr>, started := True\<rparr>
            in (state', [Broadcast (GameStart state') []]))"
  using assms by (simp add: Let_def)

lemma start_game_entries:
  "entries (players ((fold (reset_player h) (keys (players state)) state)
      \<lparr>minion := m, started := b\<rparr>)) =
   map (\<lambda>e. (fst e, reset h (fst e) (snd e))) (entries (players state))"
  by (simp add: fold_reset_entries keys_def)

lemma start_game_roles:
  assumes "distinct (map fst es)" "i < length es"
  shows "length (filter (\<lambda>p. role p = Hunter)
           (map snd (map (\<lambda>e. (fst e, reset (Some (map fst es ! i)) (fst e) (snd e))) es))) = 1"
    and "length (filter (\<lambda>p. role p = Runner)
           (map snd (map (\<lambda>e. (fst e, reset (Some (map fst es ! i)) (fst e) (snd e))) es)))
         = length es - 1"
proof -
  let ?k = "map fst es ! i"
  let ?ps = "map snd (map (\<lambda>e. (fst e, reset (Some ?k) (fst e) (snd e))) es)"
  have h: "length (filter (\<lambda>p. role p = Hunter) ?ps) = length (filter (\<lambda>x. x = ?k) (map fst es))"
    by (simp add: filter_map comp_def reset_def)
  also have "\<dots> = 1"
    using assms by (intro distinct_one_occurrence) simp_all
  finally show 1: "length (filter (\<lambda>p. role p = Hunter) ?ps) = 1" .
  have "role p = Runner \<longleftrightarrow> \<not> role p = Hunter" for p :: Player
    by (cases "role p") simp_all
  then have eq: "(\<lambda>p :: Player. role p = Runner) = (\<lambda>p. \<not> role p = Hunter)"
    by (simp add: fun_eq_iff)
  have "length (filter (\<lambda>p. role p = Hunter) ?ps) + length (filter (\<lambda>p. \<not> role p = Hunter) ?ps)
               = length ?ps"
    by (rule sum_length_filter_compl)
  with 1 show "length (filter (\<lambda>p. role p = Runner) ?ps) = length es - 1"
    unfolding eq by simp
qed

text \<open>
  C1. When \<open>Math.random()\<close> returns a number in \<open>[0, 1)\<close>: start-game on a session whose
  roster holds N players, N at least 1, keeps the roster's ids, gives role Hunter to exactly
  one player and role Runner to the other N - 1, sets every player's hp to 100 and weapon to
  "none", puts a fresh Minion at (0, 0) with hp 500, sets \<open>started\<close> and broadcasts the new
  state. On an empty roster it leaves the session as it is and broadcasts nothing.
\<close>

theorem start_game_effect:
  assumes "0 \<le> rnd" "rnd < 1"
  shows "(keys (players (current r)) = [] \<longrightarrow>
            onMessage rnd (Some StartGame) conn r = Some (Some (current r), [])) \<and>
         (keys (players (current r)) \<noteq> [] \<longrightarrow>
            (\<exists>state'. onMessage rnd (Some StartGame) conn r =
                         Some (Some state', [Broadcast (GameStart state') []]) \<and>
               keys (players state') = keys (players (current r)) \<and>
               length (hunters state') = 1 \<and>
               length (runners state') = length (keys (players (current r))) - 1 \<and>
               (\<forall>p \<in> set (vals (players state')). hp p = Fin 100 \<and> weapon p = ''none'') \<and>
               minion state' = Some \<lparr>mx = Fin 0, mz = Fin 0, mhp = Fin 500\<rparr> \<and>
               started state'))"
proof (intro conjI impI)
  assume "keys (players (current r)) = []"
  then show "onMessage rnd (Some StartGame) conn r = Some (Some (current r), [])"
    by (simp add: onMessage_def)
next
  assume ne: "keys (players (current r)) \<noteq> []"
  let ?s = "current r"
  let ?ks = "keys (players ?s)"
  from pick_hunter_in_range [OF assms ne]
  obtain i where i: "i < length ?ks" and pick: "pick_hunter rnd ?ks = Some (?ks ! i)" by blast
  define state' where
    "state' = (fold (reset_player (Some (?ks ! i))) ?ks ?s)
                \<lparr>minion := Some \<lparr>mx = Fin 0, mz = Fin 0, mhp = Fin 500\<rparr>, started := True\<rparr>"
  have out: "onMessage rnd (Some StartGame) conn r =
               Some (Some state', [Broadcast (GameStart state') []])"
    unfolding onMessage_def
    by (simp only: option.case start_game_state [OF ne] pick Let_def state'_def prod.case)
  have es: "entries (players state') =
              map (\<lambda>e. (fst e, reset (Some (?ks ! i)) (fst e) (snd e))) (entries (players ?s))"
    unfolding state'_def by (rule start_game_entries)
  have len: "i < length (entries (players ?s))" using i by (simp add: keys_def)
  have k: "keys (players state') = ?ks"
    by (simp add: keys_def es comp_def)
  have h: "length (hunters state') = 1"
    unfolding hunters_def vals_def es keys_def
    by (rule start_game_roles(1) [OF entries_distinct len])
  have ru: "length (runners state') = length ?ks - 1"
    unfolding runners_def vals_def es keys_def
    using start_game_roles(2) [OF entries_distinct len] by simp
  have all: "\<forall>p \<in> set (vals (players state')). hp p = Fin 100 \<and> weapon p = ''none''"
    by (auto simp: vals_def es reset_def)
  have m: "minion state' = Some \<lparr>mx = Fin 0, mz = Fin 0, mhp = Fin 500\<rparr>" and st: "started state'"
    by (simp_all add: state'_def)
  from out k h ru all m st
  show "\<exists>state'. onMessage rnd (Some StartGame) conn r =
                         Some (Some state', [Broadcast (GameStart state') []]) \<and>
               keys (players state') = keys (players (current r)) \<and>
               length (hunters state') = 1 \<and>
               length (runners state') = length (keys (players (current r))) - 1 \<and>
               (\<forall>p \<in> set (vals (players state')). hp p = Fin 100 \<and> weapon p = ''none'') \<and>
               minion state' = Some \<lparr>mx = Fin 0, mz = Fin 0, mhp = Fin 500\<rparr> \<and>
               started state'"
    by blast
qed

theorem start_game_effect_witness:
  "(0::real) \<le> 1 / 2 \<and> (1::real) / 2 < 1 \<and>
   keys (players (current lobby)) = [''a'', ''b'', ''c''] \<and>
   length (hunters (current (step (Message (1 / 2) (Some StartGame) ''a'') lobby))) = 1 \<and>
   length (runners (current (step (Message (1 / 2) (Some StartGame) ''a'') lobby))) = 2 \<and>
   map hp (vals (players (current (step (Message (1 / 2) (Some StartGame) ''a'') lobby))))
     = [Fin 100, Fin 100, Fin 100] \<and>
   minion (current (step (Message (1 / 2) (Some StartGame) ''a'') lobby))
     = Some \<lparr>mx = Fin 0, mz = Fin 0, mhp = Fin 500\<rparr> \<and>
   started (current (step (Message (1 / 2) (Some StartGame) ''a'') lobby)) \<and>
   onMessage (1 / 2) (Some StartGame) ''a'' None = Some (Some initial_state, [])"
proof -
  have r: "(0::real) \<le> 1 / 2" "(1::real) / 2 < 1" by simp_all
  have ks: "keys (players (current lobby)) = [''a'', ''b'', ''c'']"
    by (simp add: keys_def entries_lobby)
  have ne: "keys (players (current lobby)) \<noteq> []" by (simp add: ks)
  have len: "length [''a'', ''b'', ''c''] = 3" by simp
  from start_game_effect [OF r, of lobby "''a''", THEN conjunct2, rule_format, OF ne]
  obtain state' where
    out: "onMessage (1 / 2) (Some StartGame) ''a'' lobby =
            Some (Some state', [Broadcast (GameStart state') []])"
    and k: "keys (players state') = [''a'', ''b'', ''c'']"
    and h: "length (hunters state') = 1" and ru: "length (runners state') = 3 - 1"
    and all: "\<forall>p \<in> set (vals (players state')). hp p = Fin 100 \<and> weapon p = ''none''"
    and m: "minion state' = Some \<lparr>mx = Fin 0, mz = Fin 0, mhp = Fin 500\<rparr>" and st: "started state'"
    unfolding ks len by blast
  have c: "current (step (Message (1 / 2) (Some StartGame) ''a'') lobby) = state'"
    by (simp add: out current_def)
  have "length (vals (players state')) = 3"
  proof -
    have "length (vals (players state')) = length (keys (players state'))"
      by (simp add: keys_def vals_def)
    then show ?thesis by (simp add: k)
  qed
  then obtain p1 p2 p3 where v: "vals (players state') = [p1, p2, p3]"
    by (auto simp: length_Suc_conv numeral_3_eq_3)
  with all have hp: "map hp (vals (players state')) = [Fin 100, Fin 100, Fin 100]" by simp
  have e: "onMessage (1 / 2) (Some StartGame) ''a'' None = Some (Some initial_state, [])"
    using start_game_effect [OF r, of None "''a''"]
    by (simp add: current_def keys_def initial_state_def)
  from ru have ru': "length (runners state') = 2" by simp
  from r ks h ru' hp m st e show ?thesis unfolding c by blast
qed

section \<open>Invariants of the hp values\<close>

lemma current_simps [simp]: "current (Some state) = state" "current None = initial_state"
  by (simp_all add: current_def)

lemma modify_modify: "modify k f (modify k g state) = modify k (f \<circ> g) state"
proof -
  have "DAList.map_entry k f (DAList.map_entry k g (players state)) =
        DAList.map_entry k (f \<circ> g) (players state)"
    unfolding alist_eq_iff entries_def [symmetric]
    by (simp add: entries_map_entry)
  then show ?thesis by (simp add: modify_def)
qed

lemma all_hp_modify:
  assumes "all_hp H state" "\<And>p. H (hp p) \<Longrightarrow> H (hp (f p))"
  shows "all_hp H (modify k f state)"
  using assms by (auto simp: all_hp_def vals_def entries_modify list_all_iff)

lemma set_update_subset: "set (AList.update k v es) \<subseteq> insert (k, v) (set es)"
  by (induction es) auto

lemma set_assign_raw: "set (assign_raw k v es) \<subseteq> insert (k, v) (set es)"
  using set_update_subset [of k v es] by (auto simp: assign_raw_def set_insert_index)

lemma all_hp_assign:
  assumes "all_hp H state" "H (hp v)"
  shows "all_hp H (state\<lparr>players := assign k v (players state)\<rparr>)"
proof -
  have "set (entries (assign k v (players state))) \<subseteq> insert (k, v) (set (entries (players state)))"
    by (simp add: entries_assign set_assign_raw)
  with assms show ?thesis
    by (fastforce simp: all_hp_def vals_def list_all_iff)
qed

lemma all_hp_fold_reset:
  assumes "all_hp H state" "H (Fin 100)"
  shows "all_hp H (fold (reset_player h) ks state)"
  using assms(1)
proof (induction ks arbitrary: state)
  case Nil
  then show ?case by simp
next
  case (Cons k ks)
  have "all_hp H (reset_player h k state)"
    unfolding reset_player_def using Cons.prems assms(2) by (intro all_hp_modify) simp_all
  then show ?case by (simp add: Cons.IH)
qed

lemma all_hp_fields [simp]:
  "all_hp H (state\<lparr>minion := m\<rparr>) = all_hp H state"
  "all_hp H (state\<lparr>started := b\<rparr>) = all_hp H state"
  by (simp_all add: all_hp_def)

lemma clamp_after_damage:
  "(\<lambda>p. if hp p < Fin 0 then p\<lparr>hp := Fin 0\<rparr> else p) \<circ> (\<lambda>p. p\<lparr>hp := hp p - d\<rparr>) =
   (\<lambda>p. p\<lparr>hp := clamp0 (hp p - d)\<rparr>)"
  by (auto simp: fun_eq_iff clamp0_def)

lemma all_hp_heal:
  assumes "all_hp H state" "\<And>h. H h \<Longrightarrow> H (Math_min (Fin 150) (h + Fin 20))"
  shows "all_hp H (heal sourceId state)"
  using assms by (auto simp: heal_def split: option.splits intro!: all_hp_modify)

lemma lookup_heal_dom:
  "DAList.lookup (players (heal s state)) k = None \<longleftrightarrow> DAList.lookup (players state) k = None"
  by (auto simp: heal_def lookup_modify split: option.splits)

lemma hit_state:
  "fst (dispatch rnd (Hit targetId sourceId damage) conn state) =
     (case DAList.lookup (players state) targetId of
        None \<Rightarrow> state
      | Some target \<Rightarrow>
          (let state2 = modify targetId (\<lambda>p. p\<lparr>hp := clamp0 (hp p - damage)\<rparr>) state
           in if clamp0 (hp target - damage) = Fin 0 \<and> truthy sourceId
              then heal sourceId state2 else state2))"
proof (cases "DAList.lookup (players state) targetId")
  case None
  then show ?thesis by simp
next
  case (Some target)
  define state2 where "state2 = modify targetId (\<lambda>p. p\<lparr>hp := clamp0 (hp p - damage)\<rparr>) state"
  have s2: "modify targetId (\<lambda>p. if hp p < Fin 0 then p\<lparr>hp := Fin 0\<rparr> else p)
              (modify targetId (\<lambda>p. p\<lparr>hp := hp p - damage\<rparr>) state) = state2"
    by (simp add: state2_def modify_modify clamp_after_damage)
  have l2: "DAList.lookup (players state2) targetId = Some (target\<lparr>hp := clamp0 (hp target - damage)\<rparr>)"
    by (simp add: state2_def lookup_modify Some)
  have l3: "DAList.lookup (players (heal sourceId state2)) targetId \<noteq> None"
    by (simp add: lookup_heal_dom l2)
  show ?thesis
    using l2 l3 unfolding dispatch.simps Let_def s2 Some option.case state2_def [symmetric]
    by (auto split: option.splits)
qed

lemma dispatch_all_hp:
  assumes "all_hp H state" "H (Fin 100)" "\<And>h. H h \<Longrightarrow> H (Math_min (Fin 150) (h + Fin 20))"
    "\<And>t s dmg h. d = Hit t s dmg \<Longrightarrow> H h \<Longrightarrow> H (clamp0 (h - dmg))"
  shows "all_hp H (fst (dispatch rnd d conn state))"
proof (cases d)
  case Join
  then show ?thesis using assms(1,2) by (simp add: Let_def all_hp_assign new_player_def)
next
  case (SelectChar c)
  then show ?thesis using assms(1)
    by (auto simp: Let_def split: option.splits intro!: all_hp_modify)
next
  case (Move k x z r)
  then show ?thesis using assms(1)
    by (auto split: option.splits intro!: all_hp_modify)
next
  case StartGame
  then show ?thesis using assms(1,2)
    by (simp add: Let_def all_hp_fold_reset)
next
  case (Hit t s dmg)
  have "all_hp H (modify t (\<lambda>p. p\<lparr>hp := clamp0 (hp p - dmg)\<rparr>) state)"
    using assms(1) assms(4) [OF Hit] by (intro all_hp_modify) simp_all
  then show ?thesis
    unfolding Hit hit_state using assms(1,3)
    by (auto simp: Let_def all_hp_heal split: option.splits)
next
  case (MinionHit dmg)
  then show ?thesis using assms(1)
    by (auto simp: Let_def split: option.splits)
next
  case (Pickup k w)
  then show ?thesis using assms(1)
    by (auto split: option.splits intro!: all_hp_modify)
next
  case Other
  then show ?thesis using assms(1) by simp
qed

lemma chase_players:
  "players (fst (chase m nearest minDist state)) =
     (if Math_sqrt ((px (snd nearest) - mx m) * (px (snd nearest) - mx m) +
                    (pz (snd nearest) - mz m) * (pz (snd nearest) - mz m)) > Fin 0 \<and>
         minDist < Fin (7 / 2)
      then DAList.map_entry (fst nearest) (\<lambda>p. p\<lparr>hp := clamp0 (hp p - Fin (1 / 2))\<rparr>) (players state)
      else players state)"
proof -
  have "players (modify k (\<lambda>p. if hp p < Fin 0 then p\<lparr>hp := Fin 0\<rparr> else p)
          (modify k (\<lambda>p. p\<lparr>hp := hp p - Fin (1 / 2)\<rparr>) (state\<lparr>minion := x\<rparr>))) =
        DAList.map_entry k (\<lambda>p. p\<lparr>hp := clamp0 (hp p - Fin (1 / 2))\<rparr>) (players state)" for k x
    unfolding modify_modify clamp_after_damage by (simp add: modify_def)
  then show ?thesis
    unfolding chase_def Let_def by (simp split: option.splits)
qed

lemma all_hp_players: "players state = players state' \<Longrightarrow> all_hp H state = all_hp H state'"
  by (simp add: all_hp_def)

lemma chase_all_hp:
  assumes "all_hp H state" "\<And>h. H h \<Longrightarrow> H (clamp0 (h - Fin (1 / 2)))"
  shows "all_hp H (fst (chase m nearest minDist state))"
proof -
  have "all_hp H (modify (fst nearest) (\<lambda>p. p\<lparr>hp := clamp0 (hp p - Fin (1 / 2))\<rparr>) state)"
    using assms by (intro all_hp_modify) simp_all
  then show ?thesis
    using assms(1) by (auto simp: all_hp_def chase_players modify_def)
qed

lemma onTick_state:
  "current (fst (onTick r)) =
     (case r of
        None \<Rightarrow> initial_state
      | Some state \<Rightarrow>
          if \<not> started state then state
          else (case minion state of
                  None \<Rightarrow> state
                | Some m \<Rightarrow>
                    (case fst (find_nearest m state) of
                       None \<Rightarrow> state
                     | Some e \<Rightarrow> fst (chase m e (snd (find_nearest m state)) state))))"
  by (auto simp: onTick_def current_def Let_def split: option.splits prod.splits)

lemma onTick_all_hp:
  assumes "all_hp H (current r)" "\<And>h. H h \<Longrightarrow> H (clamp0 (h - Fin (1 / 2)))"
  shows "all_hp H (current (fst (onTick r)))"
  unfolding onTick_state using assms
  by (auto simp: current_def chase_all_hp split: option.splits)

lemma step_all_hp:
  assumes "all_hp H (current r)" "H (Fin 100)" "\<And>h. H h \<Longrightarrow> H (Math_min (Fin 150) (h + Fin 20))"
    "\<And>rnd t s dmg c h. e = Message rnd (Some (Hit t s dmg)) c \<Longrightarrow> H h \<Longrightarrow> H (clamp0 (h - dmg))"
    "\<And>h. e = Tick \<Longrightarrow> H h \<Longrightarrow> H (clamp0 (h - Fin (1 / 2)))"
  shows "all_hp H (current (step e r))"
proof (cases e)
  case (Connect c)
  then show ?thesis using assms(1) by simp
next
  case (Message rnd message c)
  show ?thesis
  proof (cases message)
    case None
    then show ?thesis using assms(1) Message by (simp add: onMessage_def)
  next
    case (Some d)
    have "all_hp H (fst (dispatch rnd d c (current r)))"
      using assms(1,2,3) assms(4) [of rnd _ _ _ c] Message Some
      by (intro dispatch_all_hp) auto
    then show ?thesis using Message Some
      by (auto simp: onMessage_def split: prod.splits)
  qed
next
  case Tick
  then show ?thesis using onTick_all_hp [OF assms(1)] assms(5) by simp
qed

lemma run_all_hp:
  assumes "all_hp H (current r)" "H (Fin 100)" "\<And>h. H h \<Longrightarrow> H (Math_min (Fin 150) (h + Fin 20))"
    "\<And>rnd t s dmg c h. Message rnd (Some (Hit t s dmg)) c \<in> set evs \<Longrightarrow> H h \<Longrightarrow> H (clamp0 (h - dmg))"
    "\<And>h. Tick \<in> set evs \<Longrightarrow> H h \<Longrightarrow> H (clamp0 (h - Fin (1 / 2)))"
  shows "all_hp H (current (run evs r))"
  using assms(1,4,5)
proof (induction evs arbitrary: r)
  case Nil
  then show ?case by (simp add: run_def)
next
  case (Cons e evs)
  have "all_hp H (current (step e r))"
  proof (rule step_all_hp [OF Cons.prems(1) assms(2,3)])
    fix rnd t s dmg c h
    assume "e = Message rnd (Some (Hit t s dmg)) c" "H h"
    then show "H (clamp0 (h - dmg))" using Cons.prems(2) [of rnd t s dmg c h] by simp
  next
    fix h
    assume "e = Tick" "H h"
    then show "H (clamp0 (h - Fin (1 / 2)))" using Cons.prems(3) [of h] by simp
  qed
  then have "all_hp H (current (run evs (step e r)))"
  proof (rule Cons.IH)
    fix rnd t s dmg c h
    assume "Message rnd (Some (Hit t s dmg)) c \<in> set evs" "H h"
    then show "H (clamp0 (h - dmg))" using Cons.prems(2) [of rnd t s dmg c h] by simp
  next
    fix h
    assume "Tick \<in> set evs" "H h"
    then show "H (clamp0 (h - Fin (1 / 2)))" using Cons.prems(3) [of h] by simp
  qed
  then show ?case by (simp add: run_def)
qed

lemma all_hp_initial: "all_hp H (current None)"
  by (simp add: all_hp_def current_def initial_state_def vals_def)

section \<open>A game of two\<close>

lemma entries_arena:
  "entries (players arena) = [(''a'', (new_player ''a'')\<lparr>role := Hunter\<rparr>), (''b'', new_player ''b'')]"
  by (simp add: arena_def entries_assign assign_raw_def not_array_index is_digit_def)

lemma run_arena: "run arena_events None = Some arena"
proof -
  have "run arena_events None = Some (current (run arena_events None))"
    by (simp add: arena_events_def run_def onMessage_def Let_def split: prod.splits)
  moreover have "current (run arena_events None) = arena"
  proof (rule GameState.equality)
    show "players (current (run arena_events None)) = players arena"
      unfolding alist_eq_iff entries_def [symmetric] entries_arena
      by (simp add: arena_events_def run_def onMessage_def Let_def initial_state_def
          keys_def entries_assign assign_raw_def not_array_index is_digit_def pick_hunter_def
          reset_player_def entries_modify new_player_def)
  qed (simp_all add: arena_events_def run_def onMessage_def Let_def initial_state_def
          keys_def entries_assign assign_raw_def not_array_index is_digit_def arena_def
          reset_player_def modify_def)
  ultimately show ?thesis by simp
qed

lemma onMessage_Some:
  "onMessage rnd (Some d) conn r =
     Some (Some (fst (dispatch rnd d conn (current r))), snd (dispatch rnd d conn (current r)))"
  by (simp add: onMessage_def split: prod.splits)

lemma step_message:
  "step (Message rnd (Some d) conn) r = Some (fst (dispatch rnd d conn (current r)))"
  by (simp add: onMessage_Some)

lemma all_hp_initial_state: "all_hp H initial_state"
  by (simp add: all_hp_def initial_state_def vals_def)

lemma run_single: "run [e] r = step e r"
  by (simp add: run_def)

lemma run_append: "run (evs @ evs') r = run evs' (run evs r)"
  by (simp add: run_def)

lemma lookup_arena:
  "DAList.lookup (players arena) k =
     (if k = ''b'' then Some (new_player ''b'')
      else if k = ''a'' then Some ((new_player ''a'')\<lparr>role := Hunter\<rparr>) else None)"
  by (simp add: arena_def lookup_assign)

section \<open>Player hp in the runs of a room\<close>

lemma run_Cons: "run (e # evs) r = run evs (step e r)"
  by (simp add: run_def)

lemma run_Nil: "run [] r = r"
  by (simp add: run_def)

lemma clamp0_not_less: "\<not> clamp0 h < Fin 0"
  by (cases h) (simp_all add: clamp0_def)

lemma heal_not_less: "\<not> h < Fin 0 \<Longrightarrow> \<not> Math_min (Fin 150) (h + Fin 20) < Fin 0"
proof (cases h)
  case (Fin x)
  assume "\<not> h < Fin 0"
  with Fin have "0 \<le> x + 20" by simp
  with zero_double show ?thesis
    unfolding Fin plus_number.simps by (rule rd_ge) (simp_all add: Math_min_def)
qed (simp_all add: Math_min_def)

lemma clamp0_nonneg:
  assumes "Fin 0 \<le> h"
  shows "Fin 0 \<le> clamp0 (h - Fin d)"
proof (cases h)
  case (Fin x)
  show ?thesis
    unfolding Fin minus_number.simps
    by (cases "x - d" rule: rd_cases) (simp_all add: clamp0_simps)
next
  case PlusInf
  then show ?thesis by (simp add: clamp0_simps)
qed (use assms in simp_all)

lemma heal_nonneg:
  assumes "Fin 0 \<le> h"
  shows "Fin 0 \<le> Math_min (Fin 150) (h + Fin 20)"
proof (cases h)
  case (Fin x)
  with assms have "0 \<le> x + 20" by simp
  with zero_double show ?thesis
    unfolding Fin plus_number.simps by (rule rd_ge) (simp_all add: Math_min_def)
next
  case PlusInf
  then show ?thesis by (simp add: Math_min_def)
qed (use assms in simp_all)

lemma finite_damage_hit:
  assumes "list_all finite_damage evs" "Message rnd (Some (Hit t s dmg)) c \<in> set evs"
  obtains d where "dmg = Fin d"
proof -
  from assms have "finite_damage (Message rnd (Some (Hit t s dmg)) c)"
    by (auto simp: list_all_iff)
  then show thesis using that by (cases dmg) simp_all
qed

text \<open>
  C4, as the code has it. In every state that a room reaches from its creation, through any
  sequence of connections, messages of any type (join, select-char, move, start-game, hit,
  minion-hit, pickup, others, unparseable ones) and minion ticks, no player's hp is less than
  0; and every player's hp is at least 0 when the damage field of every hit message of the
  sequence is a finite number. The two differ at NaN, which is neither less than 0 nor at
  least 0.
\<close>

theorem player_hp_never_negative:
  "\<forall>p \<in> set (vals (players (current (run evs None)))).
     \<not> hp p < Fin 0 \<and> (list_all finite_damage evs \<longrightarrow> Fin 0 \<le> hp p)"
proof -
  have "all_hp (\<lambda>h. \<not> h < Fin 0) (current (run evs None))"
    by (rule run_all_hp) (simp_all add: all_hp_initial_state clamp0_not_less heal_not_less)
  moreover have "all_hp (\<lambda>h. Fin 0 \<le> h) (current (run evs None))" if fin: "list_all finite_damage evs"
  proof (rule run_all_hp)
    fix rnd t s dmg c h
    assume ev: "Message rnd (Some (Hit t s dmg)) c \<in> set evs" and h: "Fin 0 \<le> h"
    from fin ev obtain d where "dmg = Fin d" by (rule finite_damage_hit)
    with h show "Fin 0 \<le> clamp0 (h - dmg)" by (simp add: clamp0_nonneg)
  qed (simp_all add: all_hp_initial_state clamp0_nonneg heal_nonneg)
  ultimately show ?thesis by (simp add: all_hp_def list_all_iff)
qed

theorem player_hp_never_negative_witness:
  "map hp (vals (players (current
     (run (arena_events @ [Message 0 (Some (Hit ''b'' None (Fin 250))) ''a'']) None)))) = [Fin 100, Fin 0] \<and>
   list_all finite_damage (arena_events @ [Message 0 (Some (Hit ''b'' None (Fin 250))) ''a'']) \<and>
   \<not> Fin 100 < Fin 0 \<and> Fin 0 \<le> Fin 100 \<and> \<not> Fin 0 < Fin 0 \<and> Fin 0 \<le> Fin 0"
proof -
  let ?evs = "arena_events @ [Message 0 (Some (Hit ''b'' None (Fin 250))) ''a'']"
  let ?r = "run ?evs None"
  have "entries (players (current ?r)) =
          [(''a'', (new_player ''a'')\<lparr>role := Hunter\<rparr>), (''b'', (new_player ''b'')\<lparr>hp := Fin 0\<rparr>)]"
    by (simp add: run_append run_arena run_single onMessage_Some lookup_modify lookup_arena Let_def
        truthy_def entries_modify entries_arena new_player_def)
  then have 1: "map hp (vals (players (current ?r))) = [Fin 100, Fin 0]"
    by (simp add: vals_def new_player_def)
  have 2: "list_all finite_damage ?evs" by (simp add: arena_events_def)
  from player_hp_never_negative [of ?evs] 1 2 show ?thesis by simp
qed

text \<open>
  A hit message without a damage field, and the hits with damage \<open>-1e999\<close> then \<open>1e999\<close>,
  leave the hp of the target NaN: \<open>hp >= 0\<close> is false there.
\<close>

theorem hp_not_a_number:
  "map hp (vals (players (current
     (run (arena_events @ [Message 0 (Some (Hit ''b'' None NaN)) ''a'']) None)))) = [Fin 100, NaN] \<and>
   map hp (vals (players (current
     (run (arena_events @ [Message 0 (Some (Hit ''b'' None MinusInf)) ''a'',
                           Message 0 (Some (Hit ''b'' None PlusInf)) ''a'']) None)))) = [Fin 100, NaN] \<and>
   \<not> Fin 0 \<le> NaN"
proof -
  have "entries (players (current (run (arena_events @ [Message 0 (Some (Hit ''b'' None NaN)) ''a'']) None))) =
          [(''a'', (new_player ''a'')\<lparr>role := Hunter\<rparr>), (''b'', (new_player ''b'')\<lparr>hp := NaN\<rparr>)]"
    by (simp add: run_append run_arena run_single onMessage_Some lookup_modify lookup_arena Let_def
        truthy_def entries_modify entries_arena new_player_def)
  then have 1: "map hp (vals (players (current
     (run (arena_events @ [Message 0 (Some (Hit ''b'' None NaN)) ''a'']) None)))) = [Fin 100, NaN]"
    by (simp add: vals_def new_player_def)
  have "entries (players (current (run (arena_events @ [Message 0 (Some (Hit ''b'' None MinusInf)) ''a'',
                           Message 0 (Some (Hit ''b'' None PlusInf)) ''a'']) None))) =
          [(''a'', (new_player ''a'')\<lparr>role := Hunter\<rparr>), (''b'', (new_player ''b'')\<lparr>hp := NaN\<rparr>)]"
    by (simp add: run_append run_arena run_Cons run_Nil onMessage_Some lookup_modify lookup_arena
        Let_def truthy_def entries_modify entries_arena new_player_def)
  then have 2: "map hp (vals (players (current
     (run (arena_events @ [Message 0 (Some (Hit ''b'' None MinusInf)) ''a'',
                           Message 0 (Some (Hit ''b'' None PlusInf)) ''a'']) None)))) = [Fin 100, NaN]"
    by (simp add: vals_def new_player_def)
  from 1 2 show ?thesis by simp
qed

section \<open>The tick and the nearest Runner\<close>





lemma scan_step_eq:
  "scan_step m e (n, d) =
     (if alive_runner (snd e) \<and> distance m (snd e) < d then (Some e, distance m (snd e)) else (n, d))"
  by (simp add: scan_step_def alive_runner_def distance_def Let_def)



lemma onTick_Some: "fst (onTick (Some state)) = Some (current (fst (onTick (Some state))))"
  by (auto simp: onTick_def Let_def split: option.splits prod.splits)

lemma tick_players:
  assumes "started state" "minion state = Some m" "find_nearest m state = (Some (k, p), d)"
  shows "players (current (fst (onTick (Some state)))) =
           (if Fin 0 < move_length m p \<and> d < Fin (7 / 2)
            then DAList.map_entry k (\<lambda>p. p\<lparr>hp := clamp0 (hp p - Fin (1 / 2))\<rparr>) (players state)
            else players state)"
  using assms by (simp add: onTick_state chase_players move_length_def)

lemma tick_idle:
  assumes "started state" "minion state = Some m" "find_nearest m state = (Some (k, p), d)"
    "\<not> Fin 0 < move_length m p"
  shows "onTick (Some state) = (Some state, [Broadcast (MinionUpdate (mx m) (mz m) (mhp m)) []])"
  using assms by (simp add: onTick_def chase_def Let_def move_length_def)

lemma rd_ge_Fin:
  assumes "c \<in> doubles" "c \<le> x" "rd x = Fin y"
  shows "c \<le> y"
  using assms(1,2) by (rule rd_ge) (use assms(3) in simp_all)

lemma rd_le_Fin:
  assumes "c \<in> doubles" "x \<le> c" "rd x = Fin y"
  shows "y \<le> c"
  using assms(1,2) by (rule rd_le) (use assms(3) in simp_all)



text \<open>
  With finite offsets the length is greater than 0 as soon as the offset in \<open>x\<close> is at least
  \<open>2 ^ -500\<close> in size.
\<close>

lemma move_length_positive:
  assumes "px p - mx m = Fin a" "pz p - mz m = Fin b" "2 powi (- 500) \<le> \<bar>a\<bar>"
  shows "Fin 0 < move_length m p"
proof -
  define t :: real where "t = 2 powi (- 500)"
  define c :: real where "c = 2 powi (- 1000)"
  have t: "t \<in> doubles" and c: "c \<in> doubles"
    unfolding t_def c_def using doublesI [of 1 "- 500"] doublesI [of 1 "- 1000"] by simp_all
  have pos: "0 < t" "0 < c" by (simp_all add: t_def c_def)
  have sq: "t * t = c"
    unfolding t_def c_def power_int_add [symmetric] by simp
  from assms(3) have "t \<le> \<bar>a\<bar>" by (simp only: t_def)
  then have "t\<^sup>2 \<le> \<bar>a\<bar>\<^sup>2" using pos(1) by (intro power_mono) simp_all
  then have a2: "c \<le> a * a" by (simp add: sq power2_eq_square)
  have b2: "0 \<le> b * b" by simp
  have root: "Fin 0 < Math_sqrt (Fin w)" if w: "c \<le> w" for w
  proof -
    have w0: "\<not> w < 0" using w pos(2) by simp
    have "t\<^sup>2 \<le> w" using w by (simp add: sq power2_eq_square)
    then have "t \<le> sqrt w" by (rule real_le_rsqrt)
    with t have "Fin 0 < rd (sqrt w)"
      by (rule rd_ge) (use pos(1) in simp_all)
    with w0 show ?thesis by simp
  qed
  have sum: "Fin 0 < Math_sqrt (Fin u + s)"
    if u: "c \<le> u" and s: "s = PlusInf \<or> (\<exists>v. s = Fin v \<and> 0 \<le> v)" for u s
    using s
  proof
    assume "s = PlusInf"
    then show ?thesis by simp
  next
    assume "\<exists>v. s = Fin v \<and> 0 \<le> v"
    then obtain v where v: "s = Fin v" "0 \<le> v" by blast
    with u have "c \<le> u + v" by simp
    with c show ?thesis
      unfolding v(1) plus_number.simps
    proof (rule rd_ge)
      assume "rd (u + v) = PlusInf"
      then show "Fin 0 < Math_sqrt (rd (u + v))" by simp
    next
      fix w
      assume "rd (u + v) = Fin w" "c \<le> w"
      then show "Fin 0 < Math_sqrt (rd (u + v))" using root [of w] by simp
    qed
  qed
  have s: "rd (b * b) = PlusInf \<or> (\<exists>v. rd (b * b) = Fin v \<and> 0 \<le> v)"
    using zero_double b2 by (rule rd_ge) simp_all
  have "Fin 0 < Math_sqrt (rd (a * a) + rd (b * b))"
    using c a2
  proof (rule rd_ge)
    assume "rd (a * a) = PlusInf"
    then show ?thesis using s by auto
  next
    fix u
    assume "rd (a * a) = Fin u" "c \<le> u"
    then show ?thesis using sum [OF _ s] by simp
  qed
  then show ?thesis by (simp add: move_length_def assms(1,2))
qed


lemma moved_fields:
  "started (fst (dispatch 0 (Move ''b'' x z r) ''b'' arena))"
  "minion (fst (dispatch 0 (Move ''b'' x z r) ''b'' arena)) = Some \<lparr>mx = Fin 0, mz = Fin 0, mhp = Fin 500\<rparr>"
  "entries (players (fst (dispatch 0 (Move ''b'' x z r) ''b'' arena))) =
     [(''a'', (new_player ''a'')\<lparr>role := Hunter\<rparr>),
      (''b'', (new_player ''b'')\<lparr>px := x, pz := z, rot := r\<rparr>)]"
  by (simp_all add: lookup_arena entries_modify entries_arena) (simp_all add: arena_def)

lemma distance_on_axis:
  assumes "x \<in> \<int>" "0 \<le> x" "x < 2 ^ 53"
  shows "distance \<lparr>mx = Fin 0, mz = Fin 0, mhp = Fin 500\<rparr>
           ((new_player ''b'')\<lparr>px := Fin x, pz := Fin 0, rot := Fin 0\<rparr>) = Fin x"
proof -
  have "sqrt (x * x) = x" using assms(2) by (simp add: real_sqrt_abs2)
  with assms show ?thesis by (simp add: distance_def)
qed

lemma find_nearest_moved:
  assumes "x \<in> \<int>" "0 \<le> x" "x < 2 ^ 53"
  shows "find_nearest \<lparr>mx = Fin 0, mz = Fin 0, mhp = Fin 500\<rparr>
           (fst (dispatch 0 (Move ''b'' (Fin x) (Fin 0) (Fin 0)) ''b'' arena)) =
         (if x < 9999 then (Some (''b'', (new_player ''b'')\<lparr>px := Fin x, pz := Fin 0, rot := Fin 0\<rparr>), Fin x)
          else (None, Fin 9999))"
proof -
  have a: "alive_runner ((new_player ''b'')\<lparr>px := Fin x, pz := Fin 0, rot := Fin 0\<rparr>)"
    "\<not> alive_runner ((new_player ''a'')\<lparr>role := Hunter\<rparr>)"
    by (simp_all add: alive_runner_def new_player_def)
  show ?thesis
    unfolding find_nearest_def moved_fields
    by (simp add: scan_step_eq a distance_on_axis [OF assms])
qed



lemma tiny_offset:
  assumes "t \<in> doubles" "0 < t" "t < 7 / 2" "t * t < 2 powi (- 1075)"
  shows "distance \<lparr>mx = Fin 0, mz = Fin 0, mhp = Fin 500\<rparr>
           ((new_player ''b'')\<lparr>px := Fin t, pz := Fin 0, rot := Fin 0\<rparr>) = Fin t \<and>
         Fin 0 < Fin t \<and> Fin t < Fin (7 / 2) \<and>
         move_length \<lparr>mx = Fin 0, mz = Fin 0, mhp = Fin 500\<rparr>
           ((new_player ''b'')\<lparr>px := Fin t, pz := Fin 0, rot := Fin 0\<rparr>) = Fin 0 \<and>
         onTick (Some (fst (dispatch 0 (Move ''b'' (Fin t) (Fin 0) (Fin 0)) ''b'' arena))) =
           (Some (fst (dispatch 0 (Move ''b'' (Fin t) (Fin 0) (Fin 0)) ''b'' arena)),
            [Broadcast (MinionUpdate (Fin 0) (Fin 0) (Fin 500)) []])"
proof -
  let ?m = "\<lparr>mx = Fin 0, mz = Fin 0, mhp = Fin 500\<rparr>"
  let ?p = "(new_player ''b'')\<lparr>px := Fin t, pz := Fin 0, rot := Fin 0\<rparr>"
  let ?state = "fst (dispatch 0 (Move ''b'' (Fin t) (Fin 0) (Fin 0)) ''b'' arena)"
  have t: "rd t = Fin t" using assms(1) by (rule rd_exact)
  have "sqrt (t * t) = t" using assms(2) by (simp add: real_sqrt_abs2)
  then have d: "distance ?m ?p = Fin t"
    by (simp add: distance_def new_player_def t)
  have "\<bar>t * t\<bar> < 2 powi (- 1075)" using assms(4) by (simp add: abs_mult)
  then have "rd (t * t) = Fin 0" by (rule rd_underflow)
  then have l: "move_length ?m ?p = Fin 0"
    by (simp add: move_length_def new_player_def t)
  have a: "alive_runner ?p" "\<not> alive_runner ((new_player ''a'')\<lparr>role := Hunter\<rparr>)"
    by (simp_all add: alive_runner_def new_player_def)
  have "t < 9999" using assms(3) by simp
  then have n: "find_nearest ?m ?state = (Some (''b'', ?p), Fin t)"
    unfolding find_nearest_def moved_fields by (simp add: scan_step_eq a d)
  have "onTick (Some ?state) = (Some ?state, [Broadcast (MinionUpdate (mx ?m) (mz ?m) (mhp ?m)) []])"
    by (rule tick_idle [OF moved_fields(1,2) n]) (simp add: l)
  with d l assms(2,3) show ?thesis by simp
qed

text \<open>
  The two tests of the tick read different quantities. A Runner at \<open>(2 ^ -600, 0)\<close> is at the
  computed distance \<open>2 ^ -600\<close> from a Minion at the origin, more than 0 and less than 3.5,
  but the square of its offset rounds to 0, so the movement computes the length 0 and the
  tick changes nothing.
\<close>

lemma tiny_offset_no_damage:
  "distance \<lparr>mx = Fin 0, mz = Fin 0, mhp = Fin 500\<rparr>
     ((new_player ''b'')\<lparr>px := Fin (2 powi (- 600)), pz := Fin 0, rot := Fin 0\<rparr>) =
     Fin (2 powi (- 600)) \<and>
   Fin 0 < Fin (2 powi (- 600)) \<and> Fin (2 powi (- 600)) < Fin (7 / 2) \<and>
   move_length \<lparr>mx = Fin 0, mz = Fin 0, mhp = Fin 500\<rparr>
     ((new_player ''b'')\<lparr>px := Fin (2 powi (- 600)), pz := Fin 0, rot := Fin 0\<rparr>) = Fin 0 \<and>
   onTick (Some tiny_arena) =
     (Some tiny_arena, [Broadcast (MinionUpdate (Fin 0) (Fin 0) (Fin 500)) []])"
  unfolding tiny_arena_def
proof (rule tiny_offset)
  show "(2 :: real) powi (- 600) \<in> doubles" using doublesI [of 1 "- 600"] by simp
  show "0 < (2 :: real) powi (- 600)" by simp
  have "(2 :: real) powi (- 600) \<le> 2 powi 0" by (intro power_int_increasing) simp_all
  then show "(2 :: real) powi (- 600) < 7 / 2" by simp
  have "(2 :: real) powi (- 600) * 2 powi (- 600) = 2 powi (- 1200)"
    unfolding power_int_add [symmetric] by simp
  moreover have "(2 :: real) powi (- 1200) < 2 powi (- 1075)"
    by (intro power_int_strict_increasing) simp_all
  ultimately show "(2 :: real) powi (- 600) * 2 powi (- 600) < 2 powi (- 1075)" by (simp only:)
qed

text \<open>
  C8 at a Runner 10000 units away: it is the only living Runner, so the nearest one, but the
  search starts from \<open>minDist = 9999\<close> and finds no target; the Minion stays where it is.
\<close>

theorem tick_ignores_far_runner:
  "run (arena_events @ [Message 0 (Some (Move ''b'' (Fin 10000) (Fin 0) (Fin 0))) ''b'']) None = Some far_arena \<and>
   started far_arena \<and> minion far_arena = Some \<lparr>mx = Fin 0, mz = Fin 0, mhp = Fin 500\<rparr> \<and>
   entries (players far_arena) =
     [(''a'', (new_player ''a'')\<lparr>role := Hunter\<rparr>),
      (''b'', (new_player ''b'')\<lparr>px := Fin 10000, pz := Fin 0, rot := Fin 0\<rparr>)] \<and>
   alive_runner ((new_player ''b'')\<lparr>px := Fin 10000, pz := Fin 0, rot := Fin 0\<rparr>) \<and>
   distance \<lparr>mx = Fin 0, mz = Fin 0, mhp = Fin 500\<rparr>
     ((new_player ''b'')\<lparr>px := Fin 10000, pz := Fin 0, rot := Fin 0\<rparr>) = Fin 10000 \<and>
   find_nearest \<lparr>mx = Fin 0, mz = Fin 0, mhp = Fin 500\<rparr> far_arena = (None, Fin 9999) \<and>
   onTick (Some far_arena) =
     (Some far_arena, [Broadcast (MinionUpdate (Fin 0) (Fin 0) (Fin 500)) []])"
proof -
  have s: "started far_arena" and m: "minion far_arena = Some \<lparr>mx = Fin 0, mz = Fin 0, mhp = Fin 500\<rparr>"
    and e: "entries (players far_arena) =
              [(''a'', (new_player ''a'')\<lparr>role := Hunter\<rparr>),
               (''b'', (new_player ''b'')\<lparr>px := Fin 10000, pz := Fin 0, rot := Fin 0\<rparr>)]"
    unfolding far_arena_def by (rule moved_fields)+
  have a: "alive_runner ((new_player ''b'')\<lparr>px := Fin 10000, pz := Fin 0, rot := Fin 0\<rparr>)"
    by (simp add: alive_runner_def new_player_def)
  have d: "distance \<lparr>mx = Fin 0, mz = Fin 0, mhp = Fin 500\<rparr>
             ((new_player ''b'')\<lparr>px := Fin 10000, pz := Fin 0, rot := Fin 0\<rparr>) = Fin 10000"
    by (rule distance_on_axis) simp_all
  have f: "find_nearest \<lparr>mx = Fin 0, mz = Fin 0, mhp = Fin 500\<rparr> far_arena = (None, Fin 9999)"
    unfolding far_arena_def using find_nearest_moved [of 10000] by simp
  have "onTick (Some far_arena) =
          (Some far_arena, [Broadcast (MinionUpdate (Fin 0) (Fin 0) (Fin 500)) []])"
    by (simp add: onTick_def s m f)
  moreover have "run (arena_events @ [Message 0 (Some (Move ''b'' (Fin 10000) (Fin 0) (Fin 0))) ''b'']) None
                   = Some far_arena"
    by (simp add: run_append run_arena run_single onMessage_Some far_arena_def)
  ultimately show ?thesis using s m e a d f by blast
qed

section \<open>The number of Hunters\<close>

lemma chase_rest:
  "started (fst (chase m e minDist state)) = started state"
  "lastHitTime (fst (chase m e minDist state)) = lastHitTime state"
  unfolding chase_def Let_def by (simp_all split: option.splits)

lemma length_hunters: "length (hunters state) = length (hunter_entries (entries (players state)))"
  by (simp add: hunters_def hunter_entries_def vals_def filter_map comp_def)

lemma hunter_entries_insert_index:
  "role v = Runner \<Longrightarrow> hunter_entries (insert_index k v es) = hunter_entries es"
  by (induction es) (auto simp: hunter_entries_def)

lemma update_as_map:
  "map_of es k \<noteq> None \<Longrightarrow> distinct (map fst es) \<Longrightarrow>
   AList.update k v es = map (\<lambda>e. if fst e = k then (k, v) else e) es"
proof (induction es)
  case Nil
  then show ?case by simp
next
  case (Cons e es)
  show ?case
  proof (cases "fst e = k")
    case True
    have "map (\<lambda>e. if fst e = k then (k, v) else e) es = es"
    proof (rule map_idI)
      fix x assume "x \<in> set es"
      with Cons.prems True have "fst x \<noteq> k" by (auto simp: image_iff)
      then show "(if fst x = k then (k, v) else x) = x" by simp
    qed
    with True show ?thesis by (cases e) simp
  next
    case False
    with Cons show ?thesis by (cases e) auto
  qed
qed

lemma hunter_entries_replace:
  "role v = Runner \<Longrightarrow>
   hunter_entries (map (\<lambda>e. if fst e = k then (k, v) else e) es) =
   filter (\<lambda>e. fst e \<noteq> k) (hunter_entries es)"
  by (induction es) (auto simp: hunter_entries_def)

lemma hunter_entries_assign_raw:
  assumes "distinct (map fst es)" "role v = Runner"
  shows "hunter_entries (assign_raw k v es) = filter (\<lambda>e. fst e \<noteq> k) (hunter_entries es)"
proof (cases "map_of es k")
  case None
  then have "k \<notin> fst ` set es" by (simp add: map_of_eq_None_iff)
  then have "\<forall>e \<in> set (hunter_entries es). fst e \<noteq> k"
    by (force simp: hunter_entries_def)
  then have "filter (\<lambda>e. fst e \<noteq> k) (hunter_entries es) = hunter_entries es"
    unfolding filter_id_conv .
  moreover have "hunter_entries (es @ [(k, v)]) = hunter_entries es"
    using assms(2) by (simp add: hunter_entries_def)
  ultimately show ?thesis
    using None assms(2) by (simp add: assign_raw_def hunter_entries_insert_index)
next
  case (Some old)
  then have "assign_raw k v es = map (\<lambda>e. if fst e = k then (k, v) else e) es"
    using assms(1) by (simp add: assign_raw_def update_as_map)
  then show ?thesis
    using assms(2) by (simp add: hunter_entries_replace)
qed

lemma hunters_join:
  "length (hunters (fst (dispatch rnd Join conn state))) =
   length (filter (\<lambda>e. fst e \<noteq> conn) (hunter_entries (entries (players state))))"
  by (simp add: Let_def length_hunters entries_assign hunter_entries_assign_raw new_player_def)

lemma hunters_modify:
  assumes "\<And>p. role (f p) = role p"
  shows "length (hunters (modify k f state)) = length (hunters state)"
proof -
  have "hunter_entries (map (\<lambda>e. if fst e = k then (fst e, f (snd e)) else e) es) =
        map (\<lambda>e. if fst e = k then (fst e, f (snd e)) else e) (hunter_entries es)" for es
    by (induction es) (auto simp: hunter_entries_def assms)
  then show ?thesis by (simp add: length_hunters entries_modify)
qed

lemma hunters_reset:
  "length (hunters ((fold (reset_player h) (keys (players state)) state)
      \<lparr>minion := m, started := b\<rparr>)) =
   length (filter (\<lambda>k. Some k = h) (keys (players state)))"
proof -
  have "hunter_entries (map (\<lambda>e. (fst e, reset h (fst e) (snd e))) es) =
        map (\<lambda>e. (fst e, reset h (fst e) (snd e))) (filter (\<lambda>e. Some (fst e) = h) es)" for es
    by (induction es) (auto simp: hunter_entries_def reset_def)
  then show ?thesis
    unfolding length_hunters start_game_entries
    by (simp add: keys_def filter_map comp_def)
qed

lemma distinct_at_most_one:
  "distinct xs \<Longrightarrow> length (filter (\<lambda>x. x = y) xs) \<le> 1"
  by (induction xs) (auto simp: filter_empty_conv)

lemma hunters_start_le:
  "length (hunters (fst (dispatch rnd StartGame conn state))) \<le> max 1 (length (hunters state))"
proof (cases "keys (players state) = []")
  case True
  then show ?thesis by simp
next
  case False
  have "length (filter (\<lambda>k. Some k = h) (keys (players state))) \<le> 1" for h
  proof (cases h)
    case None
    then show ?thesis by simp
  next
    case (Some y)
    have "(\<lambda>k. Some k = Some y) = (\<lambda>k. k = y)" by auto
    then show ?thesis
      using distinct_at_most_one [of "keys (players state)" y] Some by (simp add: keys_def)
  qed
  then have "length (filter (\<lambda>k. Some k = pick_hunter rnd (keys (players state)))
                 (keys (players state))) \<le> 1" .
  then have "length (hunters (fst (dispatch rnd StartGame conn state))) \<le> 1"
    unfolding start_game_state [OF False] Let_def fst_conv hunters_reset .
  then show ?thesis by simp
qed

lemma hunters_players: "players state = players state' \<Longrightarrow> hunters state = hunters state'"
  by (simp add: hunters_def)

lemma hunters_heal: "length (hunters (heal sourceId state)) = length (hunters state)"
  by (simp add: heal_def hunters_modify split: option.splits)

lemma hunters_dispatch:
  assumes "d \<noteq> Join" "d \<noteq> StartGame"
  shows "length (hunters (fst (dispatch rnd d conn state))) = length (hunters state)"
proof (cases d)
  case (Hit t s dmg)
  show ?thesis
    unfolding Hit hit_state
    by (simp add: Let_def hunters_heal hunters_modify split: option.splits)
next
  case (MinionHit dmg)
  then show ?thesis
    by (auto simp: Let_def hunters_def split: option.splits)
qed (use assms in \<open>auto simp: Let_def hunters_modify split: option.splits\<close>)

lemma hunters_tick: "length (hunters (current (fst (onTick r)))) = length (hunters (current r))"
proof -
  have "length (hunters (fst (chase m e minDist state))) = length (hunters state)"
    for m e minDist state
  proof -
    have "players (fst (chase m e minDist state)) = players state \<or>
          players (fst (chase m e minDist state)) =
            players (modify (fst e) (\<lambda>p. p\<lparr>hp := clamp0 (hp p - Fin (1 / 2))\<rparr>) state)"
      by (simp add: chase_players modify_def)
    then show ?thesis
      using hunters_modify [of "\<lambda>p. p\<lparr>hp := clamp0 (hp p - Fin (1 / 2))\<rparr>" "fst e" state]
      by (auto dest!: hunters_players)
  qed
  then show ?thesis
    unfolding onTick_state by (simp split: option.splits)
qed

lemma started_dispatch: "started state \<Longrightarrow> started (fst (dispatch rnd d conn state))"
  by (cases d) (auto simp: Let_def hit_state heal_def split: option.splits)

lemma started_step: "started (current r) \<Longrightarrow> started (current (step e r))"
proof (cases e)
  case (Message rnd message conn)
  assume "started (current r)"
  then show ?thesis
    using Message
    by (cases message) (simp add: onMessage_def, simp add: onMessage_Some started_dispatch)
next
  case Tick
  assume "started (current r)"
  then show ?thesis
    using Tick unfolding onTick_state step.simps Tick
    by (auto simp: chase_rest split: option.splits)
qed simp

lemma hunters_step_le:
  "length (hunters (current (step e r))) \<le> max 1 (length (hunters (current r)))"
proof (cases e)
  case (Connect c)
  then show ?thesis by simp
next
  case (Message rnd message conn)
  show ?thesis
  proof (cases message)
    case None
    then show ?thesis using Message by (simp add: onMessage_def)
  next
    case (Some d)
    consider "d = Join" | "d = StartGame" | "d \<noteq> Join" "d \<noteq> StartGame" by blast
    then have "length (hunters (fst (dispatch rnd d conn (current r))))
                 \<le> max 1 (length (hunters (current r)))"
    proof cases
      case 1
      have "length (filter (\<lambda>e. fst e \<noteq> conn) (hunter_entries (entries (players (current r)))))
              \<le> length (hunter_entries (entries (players (current r))))"
        by (rule length_filter_le)
      then show ?thesis unfolding 1 hunters_join by (simp add: length_hunters le_max_iff_disj)
    next
      case 2
      then show ?thesis using hunters_start_le by simp
    next
      case 3
      then show ?thesis by (simp add: hunters_dispatch)
    qed
    then show ?thesis using Message Some by (simp add: onMessage_Some)
  qed
next
  case Tick
  then show ?thesis by (simp add: hunters_tick)
qed

lemma hunters_run_le: "length (hunters (current (run evs None))) \<le> 1"
proof -
  have "length (hunters (current (run evs r))) \<le> 1" if "length (hunters (current r)) \<le> 1" for r
    using that
  proof (induction evs arbitrary: r)
    case Nil
    then show ?case by (simp add: run_def)
  next
    case (Cons e evs)
    from hunters_step_le [of e r] Cons.prems
    have "length (hunters (current (step e r))) \<le> 1" by simp
    then have "length (hunters (current (run evs (step e r)))) \<le> 1" by (rule Cons.IH)
    then show ?case by (simp add: run_def)
  qed
  moreover have "length (hunters (current None)) \<le> 1"
    by (simp add: hunters_def vals_def initial_state_def)
  ultimately show ?thesis .
qed

lemma hunters_step_keep:
  assumes "random_ok e" "length (hunters (current r)) = 1" "\<not> rejoin_of_hunter e (current r)"
  shows "length (hunters (current (step e r))) = 1"
proof (cases e)
  case (Connect c)
  then show ?thesis using assms(2) by simp
next
  case (Message rnd message conn)
  show ?thesis
  proof (cases message)
    case None
    then show ?thesis using Message assms(2) by (simp add: onMessage_def)
  next
    case (Some d)
    let ?s = "current r"
    consider "d = Join" | "d = StartGame" | "d \<noteq> Join" "d \<noteq> StartGame" by blast
    then have "length (hunters (fst (dispatch rnd d conn ?s))) = 1"
    proof cases
      case 1
      have "fst x \<noteq> conn" if "x \<in> set (hunter_entries (entries (players ?s)))" for x
      proof
        assume "fst x = conn"
        with that have "(conn, snd x) \<in> set (entries (players ?s))" "role (snd x) = Hunter"
          by (auto simp: hunter_entries_def)
        then have "DAList.lookup (players ?s) conn = Some (snd x)" "role (snd x) = Hunter"
          by (simp_all add: in_entries_iff)
        with assms(3) Message Some 1 show False by (simp add: rejoin_of_hunter_def)
      qed
      then have "filter (\<lambda>e. fst e \<noteq> conn) (hunter_entries (entries (players ?s))) =
                 hunter_entries (entries (players ?s))"
        unfolding filter_id_conv by blast
      then show ?thesis unfolding 1 hunters_join using assms(2) by (simp add: length_hunters)
    next
      case 2
      from assms(2) have "vals (players ?s) \<noteq> []" by (auto simp: hunters_def)
      then have ne: "keys (players ?s) \<noteq> []" by (simp add: vals_def keys_def)
      from assms(1) Message have rnd: "0 \<le> rnd" "rnd < 1" by simp_all
      from pick_hunter_in_range [OF rnd ne]
      obtain i where i: "i < length (keys (players ?s))"
        and pick: "pick_hunter rnd (keys (players ?s)) = Some (keys (players ?s) ! i)" by blast
      have d: "distinct (keys (players ?s))" by (simp add: keys_def)
      have "length (filter (\<lambda>k. k = keys (players ?s) ! i) (keys (players ?s))) = 1"
        by (rule distinct_one_occurrence [OF d i])
      then have "length (filter (\<lambda>k. Some k = pick_hunter rnd (keys (players ?s)))
                   (keys (players ?s))) = 1"
        unfolding pick by simp
      then show ?thesis
        unfolding 2 start_game_state [OF ne] Let_def fst_conv hunters_reset .
    next
      case 3
      then show ?thesis using assms(2) by (simp add: hunters_dispatch)
    qed
    then show ?thesis using Message Some by (simp add: onMessage_Some)
  qed
next
  case Tick
  then show ?thesis using assms(2) by (simp add: hunters_tick)
qed

lemma hunters_step_rejoin:
  assumes "rejoin_of_hunter e (current r)" "length (hunters (current r)) \<le> 1"
  shows "hunters (current (step e r)) = []"
proof -
  let ?s = "current r"
  from assms(1) obtain rnd conn p where e: "e = Message rnd (Some Join) conn"
    and p: "DAList.lookup (players ?s) conn = Some p" "role p = Hunter"
    by (auto simp: rejoin_of_hunter_def split: event.splits option.splits data.splits)
  from p have "(conn, p) \<in> set (hunter_entries (entries (players ?s)))"
    by (simp add: hunter_entries_def in_entries_iff)
  moreover from assms(2) have "length (hunter_entries (entries (players ?s))) \<le> 1"
    by (simp add: length_hunters)
  ultimately have "hunter_entries (entries (players ?s)) = [(conn, p)]"
    by (cases "hunter_entries (entries (players ?s))") auto
  then have "length (hunters (fst (dispatch rnd Join conn ?s))) = 0"
    unfolding hunters_join by simp
  then show ?thesis using e by (simp add: onMessage_Some)
qed

text \<open>
  C5, as the code has it. In every reachable state at most one player holds role Hunter.
  From a reachable started state with exactly one Hunter, every operation (with
  \<open>Math.random()\<close> in \<open>[0, 1)\<close>) other than a join on the Hunter's own connection id
  leaves the game started with exactly one Hunter. A join on the Hunter's connection id
  overwrites that player with a fresh Runner: the game stays started and has no Hunter.
\<close>

theorem hunter_count:
  "length (hunters (current (run evs None))) \<le> 1 \<and>
   (random_ok e \<and> started (current (run evs None)) \<and>
    length (hunters (current (run evs None))) = 1 \<and>
    \<not> rejoin_of_hunter e (current (run evs None)) \<longrightarrow>
      started (current (run (evs @ [e]) None)) \<and>
      length (hunters (current (run (evs @ [e]) None))) = 1) \<and>
   (started (current (run evs None)) \<and> rejoin_of_hunter e (current (run evs None)) \<longrightarrow>
      started (current (run (evs @ [e]) None)) \<and>
      hunters (current (run (evs @ [e]) None)) = [])"
  using hunters_run_le [of evs] hunters_step_keep [of e "run evs None"]
    hunters_step_rejoin [of e "run evs None"] started_step [of "run evs None" e]
  by (simp add: run_append run_single)

lemma hunters_arena: "hunters arena = [(new_player ''a'')\<lparr>role := Hunter\<rparr>]"
  by (simp add: hunters_def vals_def entries_arena new_player_def)

text \<open>
  C5 as stated fails when the Hunter joins again: the game is started and nobody is Hunter.
\<close>

theorem hunter_rejoin_leaves_none:
  "list_all random_ok (arena_events @ [Message 0 (Some Join) ''a'']) \<and>
   started (current (run (arena_events @ [Message 0 (Some Join) ''a'']) None)) \<and>
   length (hunters (current (run (arena_events @ [Message 0 (Some Join) ''a'']) None))) = 0"
proof -
  have "entries (assign ''a'' (new_player ''a'') (players arena)) =
          [(''a'', new_player ''a''), (''b'', new_player ''b'')]"
    by (simp add: entries_assign entries_arena assign_raw_def)
  then have "hunters (current (run (arena_events @ [Message 0 (Some Join) ''a'']) None)) = []"
    by (simp add: run_append run_arena run_single onMessage_Some Let_def hunters_def vals_def
        new_player_def)
  moreover have "started (current (run (arena_events @ [Message 0 (Some Join) ''a'']) None))"
    by (simp add: run_append run_arena run_single onMessage_Some Let_def arena_def)
  ultimately show ?thesis by (simp add: arena_events_def)
qed

theorem hunter_count_witness:
  "random_ok (Message 0 (Some Join) ''c'') \<and> started (current (run arena_events None)) \<and>
   length (hunters (current (run arena_events None))) = 1 \<and>
   \<not> rejoin_of_hunter (Message 0 (Some Join) ''c'') (current (run arena_events None)) \<and>
   length (hunters (current (run (arena_events @ [Message 0 (Some Join) ''c'']) None))) = 1 \<and>
   rejoin_of_hunter (Message 0 (Some Join) ''a'') (current (run arena_events None)) \<and>
   hunters (current (run (arena_events @ [Message 0 (Some Join) ''a'']) None)) = []"
proof -
  have s: "started (current (run arena_events None))"
    and h: "length (hunters (current (run arena_events None))) = 1"
    and c: "\<not> rejoin_of_hunter (Message 0 (Some Join) ''c'') (current (run arena_events None))"
    and a: "rejoin_of_hunter (Message 0 (Some Join) ''a'') (current (run arena_events None))"
    by (simp_all add: run_arena hunters_arena rejoin_of_hunter_def lookup_arena)
      (simp add: arena_def)
  have ok: "random_ok (Message 0 (Some Join) ''c'')" by simp
  from hunter_count [of arena_events "Message 0 (Some Join) ''c''"] ok s h c
  have 1: "length (hunters (current (run (arena_events @ [Message 0 (Some Join) ''c'']) None))) = 1"
    by blast
  from hunter_count [of arena_events "Message 0 (Some Join) ''a''"] s a
  have 2: "hunters (current (run (arena_events @ [Message 0 (Some Join) ''a'']) None)) = []"
    by blast
  from ok s h c a 1 2 show ?thesis by blast
qed

section \<open>Sequences of hits\<close>

lemma nonneg_hit_cases:
  assumes "nonneg_hit e"
  obtains rnd t s d c where "e = Message rnd (Some (Hit t s d)) c" "Fin 0 \<le> d"
proof -
  from assms obtain t s d where h: "hit_of e = Some (t, s, d)" "Fin 0 \<le> d"
    by (auto simp: nonneg_hit_def split: option.splits)
  then obtain rnd c where "e = Message rnd (Some (Hit t s d)) c"
    by (cases e rule: hit_of.cases) auto
  with h(2) that show ?thesis by blast
qed

lemma all_hp_lookup:
  "all_hp H state \<Longrightarrow> DAList.lookup (players state) k = Some p \<Longrightarrow> H (hp p)"
  by (auto simp: all_hp_def list_all_iff in_vals_iff)

lemma nonneg_doubleE:
  assumes "nonneg_double h"
  obtains x where "h = Fin x" "x \<in> doubles" "0 \<le> x"
  using assms by (cases h) (simp_all add: nonneg_double_def)

lemma nonneg_double_Fin [simp]: "nonneg_double (Fin x) \<longleftrightarrow> x \<in> doubles \<and> 0 \<le> x"
  by (simp add: nonneg_double_def)

lemma nonneg_double_clamp:
  assumes "nonneg_double h" "Fin 0 \<le> d"
  shows "nonneg_double (clamp0 (h - d))" "clamp0 (h - d) \<le> h"
proof -
  from assms(1) obtain x where h: "h = Fin x" and x: "x \<in> doubles" "0 \<le> x"
    by (rule nonneg_doubleE)
  have "nonneg_double (clamp0 (h - d)) \<and> clamp0 (h - d) \<le> h"
  proof (cases d)
    case (Fin y)
    with assms(2) have "x - y \<le> x" by simp
    with x(1) show ?thesis
      unfolding h Fin minus_number.simps
      by (rule rd_le) (use x in \<open>simp_all add: clamp0_simps max_def\<close>)
  next
    case PlusInf
    with x show ?thesis by (simp add: h clamp0_simps)
  qed (use assms(2) in simp_all)
  then show "nonneg_double (clamp0 (h - d))" "clamp0 (h - d) \<le> h" by simp_all
qed

lemma double_150: "150 \<in> doubles"
  by (rule numeral_double) simp_all

lemma double_20: "20 \<in> doubles"
  by (rule numeral_double) simp_all

lemma nonneg_double_heal:
  assumes "nonneg_double h"
  shows "nonneg_double (Math_min (Fin 150) (h + Fin 20))"
    "Math_min (Fin 150) (h + Fin 20) \<le> Math_min (Fin 150) (h + Fin 20)"
    "Fin 20 \<le> Math_min (Fin 150) (h + Fin 20)"
proof -
  from assms(1) obtain x where h: "h = Fin x" and x: "x \<in> doubles" "0 \<le> x"
    by (rule nonneg_doubleE)
  from x(2) have "20 \<le> x + 20" by simp
  with double_20 have
    "nonneg_double (Math_min (Fin 150) (rd (x + 20))) \<and>
     Math_min (Fin 150) (rd (x + 20)) \<le> Math_min (Fin 150) (rd (x + 20)) \<and>
     Fin 20 \<le> Math_min (Fin 150) (rd (x + 20))"
    by (rule rd_ge) (simp_all add: Math_min_def double_150)
  then show "nonneg_double (Math_min (Fin 150) (h + Fin 20))"
    "Math_min (Fin 150) (h + Fin 20) \<le> Math_min (Fin 150) (h + Fin 20)"
    "Fin 20 \<le> Math_min (Fin 150) (h + Fin 20)"
    by (simp_all add: h)
qed

lemma nonneg_double_refl: "nonneg_double h \<Longrightarrow> h \<le> h"
  by (erule nonneg_doubleE) simp

lemma run_nonneg_double:
  assumes "all_hp nonneg_double (current r)" "list_all nonneg_hit evs"
  shows "all_hp nonneg_double (current (run evs r))"
  using assms(1)
proof (rule run_all_hp)
  show "nonneg_double (Fin 100)" by (simp add: numeral_double)
next
  fix rnd t s dmg c h
  assume ev: "Message rnd (Some (Hit t s dmg)) c \<in> set evs" and h: "nonneg_double h"
  from assms(2) ev have "nonneg_hit (Message rnd (Some (Hit t s dmg)) c)"
    by (auto simp: list_all_iff)
  then have "Fin 0 \<le> dmg" by (simp add: nonneg_hit_def)
  with h show "nonneg_double (clamp0 (h - dmg))" by (rule nonneg_double_clamp)
next
  fix h
  assume "nonneg_double h"
  then show "nonneg_double (clamp0 (h - Fin (1 / 2)))" by (rule nonneg_double_clamp) simp
qed (rule nonneg_double_heal)

lemma hit_step_hp:
  assumes "all_hp nonneg_double state" "Fin 0 \<le> d"
    "DAList.lookup (players (fst (dispatch rnd (Hit t s d) c state))) k = Some p'"
  shows "\<exists>p. DAList.lookup (players state) k = Some p \<and>
           (hp p' \<le> hp p \<or>
            s = Some k \<and> role p = Hunter \<and> hp p' \<le> Math_min (Fin 150) (hp p + Fin 20))"
proof (cases "DAList.lookup (players state) t")
  case None
  then have "DAList.lookup (players state) k = Some p'" using assms(3) by simp
  moreover from all_hp_lookup [OF assms(1) this] have "hp p' \<le> hp p'" by (rule nonneg_double_refl)
  ultimately show ?thesis by blast
next
  case (Some target)
  from all_hp_lookup [OF assms(1) Some] have t0: "nonneg_double (hp target)" .
  have k0: "nonneg_double (hp p)" if "DAList.lookup (players state) k = Some p" for p
    using all_hp_lookup [OF assms(1) that] .
  define hp1 where "hp1 = clamp0 (hp target - d)"
  define mid where "mid = (DAList.lookup (players state))(t \<mapsto> target\<lparr>hp := hp1\<rparr>)"
  define healed where
    "healed source = source\<lparr>hp := Math_min (Fin 150) (hp source + Fin 20)\<rparr>" for source :: Player
  have le1: "hp1 \<le> hp target"
    unfolding hp1_def using t0 assms(2) by (rule nonneg_double_clamp)
  have after: "DAList.lookup (players (fst (dispatch rnd (Hit t s d) c state))) =
                 (case s of
                    None \<Rightarrow> mid
                  | Some sid \<Rightarrow>
                      (case mid sid of
                         None \<Rightarrow> mid
                       | Some source \<Rightarrow>
                           if hp1 = Fin 0 \<and> sid \<noteq> [] \<and> role source = Hunter
                           then mid(sid \<mapsto> healed source) else mid))"
    unfolding mid_def hp1_def healed_def
    using hit_lookup(1) [OF Some, of rnd s d c] unfolding Let_def .
  have plain: "\<exists>p. DAList.lookup (players state) k = Some p \<and> hp q \<le> hp p" if "mid k = Some q" for q
  proof (cases "k = t")
    case True
    with that have "q = target\<lparr>hp := hp1\<rparr>" by (simp add: mid_def)
    with True Some le1 show ?thesis by simp
  next
    case False
    with that have q: "DAList.lookup (players state) k = Some q" by (simp add: mid_def)
    from k0 [OF q] have "hp q \<le> hp q" by (rule nonneg_double_refl)
    with q show ?thesis by blast
  qed
  consider (same) "mid k = Some p'"
    | (heal) source where "s = Some k" "mid k = Some source" "hp1 = Fin 0" "role source = Hunter"
        "p' = healed source"
    using assms(3) unfolding after by (auto split: option.splits if_splits)
  then show ?thesis
  proof cases
    case same
    then show ?thesis using plain by blast
  next
    case heal
    show ?thesis
    proof (cases "k = t")
      case True
      with heal(2) have src: "source = target\<lparr>hp := hp1\<rparr>" by (simp add: mid_def)
      have "hp p' = Fin 20"
        unfolding heal(5) healed_def src by (simp add: heal(3) Math_min_def)
      moreover have "Fin 20 \<le> Math_min (Fin 150) (hp target + Fin 20)"
        using t0 by (rule nonneg_double_heal)
      moreover have "role target = Hunter" using heal(4) src by simp
      ultimately show ?thesis using True Some heal(1) by simp
    next
      case False
      with heal(2) have src: "DAList.lookup (players state) k = Some source" by (simp add: mid_def)
      have "hp p' \<le> Math_min (Fin 150) (hp source + Fin 20)"
        unfolding heal(5) healed_def using k0 [OF src] by (simp add: nonneg_double_heal)
      with src heal(1,4) show ?thesis by blast
    qed
  qed
qed

text \<open>
  C9, as the code has it. Take a session in which every hp is a finite number that is at least
  0, and any sequence of hit events with damage at least 0. After each event every player's hp
  is at least 0, and it is at most the player's hp before the event, unless the player is the
  Hunter that the event names as \<open>sourceId\<close>: the heal may raise that hp, to at most
  \<open>Math.min(150, hp + 20)\<close>.
\<close>

theorem hit_sequence_hp:
  assumes "all_hp nonneg_double (current r)" "list_all nonneg_hit (evs @ [e])"
    "DAList.lookup (players (current (run (evs @ [e]) r))) k = Some p'"
  shows "Fin 0 \<le> hp p' \<and>
         (\<exists>p. DAList.lookup (players (current (run evs r))) k = Some p \<and>
            (hp p' \<le> hp p \<or>
             source_of e = Some k \<and> role p = Hunter \<and>
             hp p' \<le> Math_min (Fin 150) (hp p + Fin 20)))"
proof -
  have pos: "all_hp nonneg_double (current (run es r))" if "list_all nonneg_hit es" for es
    using assms(1) that by (rule run_nonneg_double)
  from assms(2) have evs: "list_all nonneg_hit evs" and "nonneg_hit e" by simp_all
  then obtain rnd t s d c where e: "e = Message rnd (Some (Hit t s d)) c" and d: "Fin 0 \<le> d"
    by (auto elim: nonneg_hit_cases)
  have after: "current (run (evs @ [e]) r) = fst (dispatch rnd (Hit t s d) c (current (run evs r)))"
    by (simp add: run_append run_single e onMessage_Some)
  from hit_step_hp [OF pos [OF evs] d assms(3) [unfolded after]]
  have "\<exists>p. DAList.lookup (players (current (run evs r))) k = Some p \<and>
            (hp p' \<le> hp p \<or>
             source_of e = Some k \<and> role p = Hunter \<and>
             hp p' \<le> Math_min (Fin 150) (hp p + Fin 20))"
    by (simp add: source_of_def e)
  moreover have "Fin 0 \<le> hp p'"
    using all_hp_lookup [OF pos [OF assms(2)] assms(3)] by (auto elim: nonneg_doubleE)
  ultimately show ?thesis by blast
qed

lemma lookup_after_kill_shot:
  "DAList.lookup (players (current (run [kill_shot] (Some arena)))) =
     (DAList.lookup (players arena))
       (''b'' \<mapsto> (new_player ''b'')\<lparr>hp := Fin 0\<rparr>,
        ''a'' \<mapsto> (new_player ''a'')\<lparr>role := Hunter, hp := Fin 120\<rparr>)"
  using hit_lookup(1) [of arena "''b''" "new_player ''b''" 0 "Some ''a''" "Fin 100" "''a''"]
  by (simp add: run_single kill_shot_def onMessage_Some lookup_arena new_player_def
      clamp0_simps Math_min_def)

text \<open>
  C9 as stated fails on the heal: the hit that brings the Runner to 0 takes the Hunter's hp
  from 100 to 120.
\<close>

theorem heal_raises_hp:
  "list_all nonneg_hit [kill_shot] \<and>
   map_option hp (DAList.lookup (players (current (run arena_events None))) ''a'') = Some (Fin 100) \<and>
   map_option hp (DAList.lookup (players (current (run (arena_events @ [kill_shot]) None))) ''a'')
     = Some (Fin 120) \<and>
   \<not> Fin 120 \<le> Fin 100"
  by (simp add: run_append run_arena lookup_after_kill_shot lookup_arena new_player_def)
    (simp add: kill_shot_def nonneg_hit_def)

theorem hit_sequence_hp_witness:
  "all_hp nonneg_double (current (Some arena)) \<and> list_all nonneg_hit ([] @ [kill_shot]) \<and>
   DAList.lookup (players (current (run ([] @ [kill_shot]) (Some arena)))) ''a'' =
     Some ((new_player ''a'')\<lparr>role := Hunter, hp := Fin 120\<rparr>) \<and>
   DAList.lookup (players (current (run [] (Some arena)))) ''a'' =
     Some ((new_player ''a'')\<lparr>role := Hunter\<rparr>) \<and>
   source_of kill_shot = Some ''a'' \<and>
   Fin 0 \<le> hp ((new_player ''a'')\<lparr>role := Hunter, hp := Fin 120\<rparr>) \<and>
   hp ((new_player ''a'')\<lparr>role := Hunter, hp := Fin 120\<rparr>)
     \<le> Math_min (Fin 150) (hp ((new_player ''a'')\<lparr>role := Hunter\<rparr>) + Fin 20)"
proof -
  have a: "all_hp nonneg_double (current (Some arena))"
    by (simp add: all_hp_def vals_def entries_arena new_player_def numeral_double)
  have l: "list_all nonneg_hit ([] @ [kill_shot])"
    by (simp add: kill_shot_def nonneg_hit_def)
  have after: "DAList.lookup (players (current (run ([] @ [kill_shot]) (Some arena)))) ''a'' =
                 Some ((new_player ''a'')\<lparr>role := Hunter, hp := Fin 120\<rparr>)"
    by (simp add: lookup_after_kill_shot)
  have before: "DAList.lookup (players (current (run [] (Some arena)))) ''a'' =
                  Some ((new_player ''a'')\<lparr>role := Hunter\<rparr>)"
    by (simp add: run_def lookup_arena)
  have src: "source_of kill_shot = Some ''a''"
    by (simp add: source_of_def kill_shot_def)
  from hit_sequence_hp [OF a l after]
  have "Fin 0 \<le> hp ((new_player ''a'')\<lparr>role := Hunter, hp := Fin 120\<rparr>)" by blast
  moreover have "hp ((new_player ''a'')\<lparr>role := Hunter, hp := Fin 120\<rparr>)
                   \<le> Math_min (Fin 150) (hp ((new_player ''a'')\<lparr>role := Hunter\<rparr>) + Fin 20)"
    by (simp add: new_player_def Math_min_def)
  ultimately show ?thesis using a l after before src by blast
qed

section \<open>Integral hp\<close>

lemma big_double_int:
  assumes "c \<in> doubles" "2 ^ 52 \<le> \<bar>c\<bar>"
  shows "c \<in> \<int>"
proof -
  from assms(1) obtain m e :: int where me: "\<bar>m\<bar> < 2 ^ 53" "c = real_of_int m * 2 powi e"
    by (rule doublesE)
  have "0 \<le> e"
  proof (rule ccontr)
    assume "\<not> 0 \<le> e"
    then have "e \<le> - 1" by simp
    then have "(2 :: real) powi e \<le> 2 powi (- 1)" by (intro power_int_increasing) simp_all
    then have p: "(2 :: real) powi e \<le> 1 / 2" by (simp add: power_int_minus)
    have "real_of_int \<bar>m\<bar> < real_of_int (2 ^ 53)" using me(1) by (simp only: of_int_less_iff)
    then have m: "real_of_int \<bar>m\<bar> < 2 ^ 53" by simp
    have "\<bar>c\<bar> = real_of_int \<bar>m\<bar> * 2 powi e" by (simp add: me(2) abs_mult)
    also have "\<dots> \<le> real_of_int \<bar>m\<bar> * (1 / 2)" using p by (intro mult_left_mono) simp_all
    also have "\<dots> < 2 ^ 53 * (1 / 2)" using m by simp
    finally show False using assms(2) by simp
  qed
  then have "(2 :: real) powi e = 2 ^ nat e" by (simp add: power_int_def)
  then show ?thesis by (simp add: me(2))
qed

lemma double_2_52: "2 ^ 52 \<in> doubles"
  by (rule numeral_double) simp_all

lemma rd_integrality:
  assumes "2 * x \<in> \<int>"
  obtains "rd x = PlusInf" | "rd x = MinusInf"
  | y where "rd x = Fin y" "2 * y \<in> \<int>" "x \<in> \<int> \<longrightarrow> y \<in> \<int>"
proof (cases "\<bar>x\<bar> < 2 ^ 52")
  case True
  with assms have "rd x = Fin x" by (rule rd_half)
  with assms that(3) show ?thesis by blast
next
  case False
  show ?thesis
  proof (cases x rule: rd_cases)
    case (3 y)
    have "2 ^ 52 \<le> \<bar>y\<bar>"
    proof (cases "0 \<le> x")
      case True
      with False have "2 ^ 52 \<le> x" by simp
      with double_2_52 have "2 ^ 52 \<le> y" using 3(1) by (rule rd_ge_Fin)
      then show ?thesis by simp
    next
      case neg: False
      have d: "- (2 ^ 52) \<in> doubles"
        by (rule numeral_double) simp_all
      from neg False have "x \<le> - (2 ^ 52)" by simp
      with d have "y \<le> - (2 ^ 52)" using 3(1) by (rule rd_le_Fin)
      then show ?thesis by simp
    qed
    with 3(2) have "y \<in> \<int>" by (rule big_double_int)
    then have "2 * y \<in> \<int>" by simp
    with 3(1) \<open>y \<in> \<int>\<close> that(3) show ?thesis by blast
  qed (use that in blast)+
qed

lemma half_integral_simps [simp]:
  "half_integral (Fin x) \<longleftrightarrow> 2 * x \<in> \<int>" "half_integral PlusInf"
  "\<not> half_integral MinusInf" "\<not> half_integral NaN"
  "integral (Fin x) \<longleftrightarrow> x \<in> \<int>" "integral PlusInf"
  "\<not> integral MinusInf" "\<not> integral NaN"
  by (simp_all add: half_integral_def integral_def)

text \<open>
  One step of the hp arithmetic on a number that is at least 0 and a half-integer (or an
  integer) or \<open>Infinity\<close>.
\<close>

lemma grid_clamp:
  assumes "Fin 0 \<le> h" "half_integral h" "2 * d \<in> \<int>"
  shows "Fin 0 \<le> clamp0 (h - Fin d)" "half_integral (clamp0 (h - Fin d))"
    "integral h \<Longrightarrow> d \<in> \<int> \<Longrightarrow> integral (clamp0 (h - Fin d))"
proof -
  show "Fin 0 \<le> clamp0 (h - Fin d)" using assms(1) by (rule clamp0_nonneg)
  have "half_integral (clamp0 (h - Fin d)) \<and>
        (integral h \<and> d \<in> \<int> \<longrightarrow> integral (clamp0 (h - Fin d)))"
  proof (cases h)
    case (Fin x)
    with assms have "2 * (x - d) \<in> \<int>" by (simp add: right_diff_distrib)
    then show ?thesis
      unfolding Fin minus_number.simps
      by (rule rd_integrality) (auto simp: clamp0_simps max_def)
  qed (use assms in \<open>simp_all add: clamp0_simps\<close>)
  then show "half_integral (clamp0 (h - Fin d))"
    "integral h \<Longrightarrow> d \<in> \<int> \<Longrightarrow> integral (clamp0 (h - Fin d))" by simp_all
qed

lemma grid_heal:
  assumes "Fin 0 \<le> h" "half_integral h"
  shows "half_integral (Math_min (Fin 150) (h + Fin 20))"
    "integral h \<Longrightarrow> integral (Math_min (Fin 150) (h + Fin 20))"
proof -
  have "half_integral (Math_min (Fin 150) (h + Fin 20)) \<and>
        (integral h \<longrightarrow> integral (Math_min (Fin 150) (h + Fin 20)))"
  proof (cases h)
    case (Fin x)
    with assms have x: "0 \<le> x + 20" "2 * (x + 20) \<in> \<int>" by (simp_all add: distrib_left)
    from zero_double x(1) have "rd (x + 20) \<noteq> MinusInf" by (rule rd_ge) simp_all
    with x(2) show ?thesis
      unfolding Fin plus_number.simps
      by (cases rule: rd_integrality) (simp_all add: Math_min_def)
  qed (use assms in \<open>simp_all add: Math_min_def\<close>)
  then show "half_integral (Math_min (Fin 150) (h + Fin 20))"
    "integral h \<Longrightarrow> integral (Math_min (Fin 150) (h + Fin 20))" by simp_all
qed

lemma integer_damage_hit:
  assumes "list_all integer_damage evs" "Message rnd (Some (Hit t s dmg)) c \<in> set evs"
  obtains d where "dmg = Fin d" "d \<in> \<int>"
proof -
  from assms have "integer_damage (Message rnd (Some (Hit t s dmg)) c)"
    by (auto simp: list_all_iff)
  then show thesis using that by (cases dmg) (simp_all add: is_integer_def)
qed

text \<open>
  C10, as the code has it. When every damage field is an integer, every player's hp in every
  reachable state is an integer multiple of 0.5 or \<open>Infinity\<close>, and it is an integer or
  \<open>Infinity\<close> as long as no minion tick has run: the contact damage of a tick is 0.5, and a
  sum beyond the largest double is \<open>Infinity\<close>.
\<close>

theorem hp_half_integral:
  assumes "list_all integer_damage evs"
  shows "\<forall>p \<in> set (vals (players (current (run evs None)))).
           half_integral (hp p) \<and> (Tick \<notin> set evs \<longrightarrow> integral (hp p))"
proof -
  have "all_hp (\<lambda>h. Fin 0 \<le> h \<and> half_integral h) (current (run evs None))"
  proof (rule run_all_hp)
    fix rnd t s dmg c h
    assume ev: "Message rnd (Some (Hit t s dmg)) c \<in> set evs" and h: "Fin 0 \<le> h \<and> half_integral h"
    from assms ev obtain d where "dmg = Fin d" "d \<in> \<int>" by (rule integer_damage_hit)
    with h show "Fin 0 \<le> clamp0 (h - dmg) \<and> half_integral (clamp0 (h - dmg))"
      by (simp add: grid_clamp)
  qed (simp_all add: all_hp_initial_state grid_clamp grid_heal heal_nonneg)
  moreover have "all_hp (\<lambda>h. Fin 0 \<le> h \<and> half_integral h \<and> integral h) (current (run evs None))"
    if "Tick \<notin> set evs"
  proof (rule run_all_hp)
    fix rnd t s dmg c h
    assume ev: "Message rnd (Some (Hit t s dmg)) c \<in> set evs"
      and h: "Fin 0 \<le> h \<and> half_integral h \<and> integral h"
    from assms ev obtain d where "dmg = Fin d" "d \<in> \<int>" by (rule integer_damage_hit)
    with h show "Fin 0 \<le> clamp0 (h - dmg) \<and> half_integral (clamp0 (h - dmg)) \<and>
                 integral (clamp0 (h - dmg))"
      by (simp add: grid_clamp)
  qed (use that in \<open>simp_all add: all_hp_initial_state grid_heal heal_nonneg\<close>)
  ultimately show ?thesis by (auto simp: all_hp_def list_all_iff)
qed

lemma sparring_fields:
  "entries (players sparring) =
     [(''a'', (new_player ''a'')\<lparr>role := Hunter\<rparr>),
      (''b'', (new_player ''b'')\<lparr>px := Fin 1, pz := Fin 0, rot := Fin 0\<rparr>)]"
  "started sparring" "minion sparring = Some \<lparr>mx = Fin 0, mz = Fin 0, mhp = Fin 500\<rparr>"
  unfolding sparring_def by (rule moved_fields)+

lemma entries_grazed:
  "entries (players grazed) =
     [(''a'', (new_player ''a'')\<lparr>role := Hunter\<rparr>),
      (''b'', (new_player ''b'')\<lparr>px := Fin 1, pz := Fin 0, rot := Fin 0, hp := Fin 99\<rparr>)]"
  "started grazed" "minion grazed = Some \<lparr>mx = Fin 0, mz = Fin 0, mhp = Fin 500\<rparr>"
  unfolding grazed_def hit_state
  by (simp_all add: lookup_entries sparring_fields Let_def truthy_def entries_modify
      new_player_def clamp0_simps)

lemma find_nearest_grazed:
  "find_nearest \<lparr>mx = Fin 0, mz = Fin 0, mhp = Fin 500\<rparr> grazed =
     (Some (''b'', (new_player ''b'')\<lparr>px := Fin 1, pz := Fin 0, rot := Fin 0, hp := Fin 99\<rparr>), Fin 1)"
  unfolding find_nearest_def entries_grazed
  by (simp add: scan_step_eq alive_runner_def distance_def new_player_def)

lemma run_graze:
  "map hp (vals (players (current (run (arena_events @ graze_events) None)))) =
     [Fin 100, Fin (197 / 2)]"
proof -
  have "run graze_events (Some arena) = fst (onTick (Some grazed))"
    unfolding graze_events_def run_def grazed_def sparring_def
    by (simp add: onMessage_Some)
  then have run: "run (arena_events @ graze_events) None = fst (onTick (Some grazed))"
    by (simp add: run_append run_arena)
  have l: "move_length \<lparr>mx = Fin 0, mz = Fin 0, mhp = Fin 500\<rparr>
             ((new_player ''b'')\<lparr>px := Fin 1, pz := Fin 0, rot := Fin 0, hp := Fin 99\<rparr>) = Fin 1"
    by (simp add: move_length_def new_player_def)
  have "rd (99 - 1 / 2) = Fin (99 - 1 / 2)" by (rule rd_half) simp_all
  then have h: "clamp0 (Fin 99 - Fin (1 / 2)) = Fin (197 / 2)" by (simp add: clamp0_simps)
  have "entries (players (current (fst (onTick (Some grazed))))) =
          [(''a'', (new_player ''a'')\<lparr>role := Hunter\<rparr>),
           (''b'', (new_player ''b'')\<lparr>px := Fin 1, pz := Fin 0, rot := Fin 0, hp := Fin (197 / 2)\<rparr>)]"
    unfolding tick_players [OF entries_grazed(2,3) find_nearest_grazed] l
    using h by (simp add: entries_map_entry entries_grazed new_player_def)
  then show ?thesis
    unfolding run by (simp add: vals_def new_player_def)
qed

lemma not_integer_197_half: "(197 / 2 :: real) \<notin> \<int>"
proof
  assume "(197 / 2 :: real) \<in> \<int>"
  then obtain k :: int where "(197 / 2 :: real) = of_int k" by (auto elim: Ints_cases)
  then have "(of_int (2 * k) :: real) = of_int 197" by simp
  then have "2 * k = 197" by (simp only: of_int_eq_iff)
  then show False by presburger
qed

text \<open>
  C10 as stated fails on a tick: every damage field is an integer, and the contact damage
  leaves the Runner at hp 98.5.
\<close>

theorem tick_halves_hp:
  "list_all integer_damage (arena_events @ graze_events) \<and>
   map hp (vals (players (current (run (arena_events @ graze_events) None)))) =
     [Fin 100, Fin (197 / 2)] \<and>
   (197 / 2 :: real) \<notin> \<int> \<and> \<not> is_integer (Fin (197 / 2))"
  using run_graze not_integer_197_half
  by (simp add: arena_events_def graze_events_def is_integer_def)

theorem hp_half_integral_witness:
  "list_all integer_damage (arena_events @ graze_events) \<and>
   map hp (vals (players (current (run (arena_events @ graze_events) None)))) =
     [Fin 100, Fin (197 / 2)] \<and>
   half_integral (Fin 100) \<and> half_integral (Fin (197 / 2)) \<and>
   list_all integer_damage arena_events \<and> Tick \<notin> set arena_events \<and>
   map hp (vals (players (current (run arena_events None)))) = [Fin 100, Fin 100] \<and>
   integral (Fin 100)"
proof -
  have i: "list_all integer_damage (arena_events @ graze_events)"
    and j: "list_all integer_damage arena_events" and t: "Tick \<notin> set arena_events"
    by (simp_all add: arena_events_def graze_events_def is_integer_def)
  have a: "map hp (vals (players (current (run arena_events None)))) = [Fin 100, Fin 100]"
    by (simp add: run_arena vals_def entries_arena new_player_def)
  from hp_half_integral [OF i]
  have "\<forall>h \<in> set (map hp (vals (players (current (run (arena_events @ graze_events) None))))).
          half_integral h"
    by simp
  then have 1: "\<forall>h \<in> set [Fin 100, Fin (197 / 2)]. half_integral h"
    unfolding run_graze .
  from hp_half_integral [OF j] t
  have "\<forall>h \<in> set (map hp (vals (players (current (run arena_events None))))). integral h"
    by simp
  then have 2: "\<forall>h \<in> set [Fin 100, Fin 100]. integral h"
    unfolding a .
  from i j t a run_graze 1 2 show ?thesis by simp
qed

text \<open>
  \<open>Infinity\<close> is reached with integer damage: two hits with damage \<open>-(2 ^ 1023)\<close> on a Runner
  at hp 100.
\<close>

lemma double_2_1023: "2 ^ 1023 \<in> doubles"
proof -
  have "real_of_int (2 ^ 52) * 2 powi 971 \<in> doubles" by (intro doublesI) simp_all
  moreover have "real_of_int (2 ^ 52) * 2 powi 971 = 2 ^ 52 * 2 ^ 971" by simp
  moreover have "(2 :: real) ^ 52 * 2 ^ 971 = 2 ^ 1023" by (simp only: power_add [symmetric]) simp
  ultimately show ?thesis by simp
qed

lemma two_negative_hits:
  "clamp0 (clamp0 (Fin 100 - Fin (- (2 ^ 1023))) - Fin (- (2 ^ 1023))) = PlusInf"
proof -
  have "(2 :: real) ^ 1023 \<le> 100 - - (2 ^ 1023)" by simp
  with double_2_1023
  have "clamp0 (clamp0 (rd (100 - - (2 ^ 1023))) - Fin (- (2 ^ 1023))) = PlusInf"
  proof (rule rd_ge)
    assume "rd (100 - - (2 ^ 1023)) = PlusInf"
    then show ?thesis by (simp add: clamp0_simps)
  next
    fix y
    assume y: "rd (100 - - (2 ^ 1023)) = Fin y" "2 ^ 1023 \<le> y"
    have "(2 :: real) ^ 1024 = 2 ^ 1023 + 2 ^ 1023" by simp
    with y(2) have "(2 :: real) ^ 1024 - 2 ^ 970 \<le> y - - (2 ^ 1023)" by simp
    then have "rd (y - - (2 ^ 1023)) = PlusInf" unfolding rd_def by (simp only: if_True)
    then have c2: "Fin y - Fin (- (2 ^ 1023)) = PlusInf" unfolding minus_number.simps .
    from y(2) have "max 0 y = y" by simp
    then have c1: "clamp0 (rd (100 - - (2 ^ 1023))) = Fin y"
      unfolding y(1) by (simp only: clamp0_simps)
    show ?thesis unfolding c1 c2 by (simp only: clamp0_simps)
  qed
  then show ?thesis unfolding minus_number.simps .
qed

lemma hp_overflows:
  "list_all integer_damage
     (arena_events @ [Message 0 (Some (Hit ''b'' None (Fin (- (2 ^ 1023))))) ''a'',
                      Message 0 (Some (Hit ''b'' None (Fin (- (2 ^ 1023))))) ''a'']) \<and>
   map hp (vals (players (current (run
     (arena_events @ [Message 0 (Some (Hit ''b'' None (Fin (- (2 ^ 1023))))) ''a'',
                      Message 0 (Some (Hit ''b'' None (Fin (- (2 ^ 1023))))) ''a'']) None)))) =
     [Fin 100, PlusInf]"
proof -
  have "entries (players (current (run
          (arena_events @ [Message 0 (Some (Hit ''b'' None d)) ''a'',
                           Message 0 (Some (Hit ''b'' None d)) ''a'']) None))) =
          [(''a'', (new_player ''a'')\<lparr>role := Hunter\<rparr>),
           (''b'', (new_player ''b'')\<lparr>hp := clamp0 (clamp0 (Fin 100 - d) - d)\<rparr>)]" for d
    unfolding run_append run_arena run_Cons run_Nil step_message hit_state
    by (simp add: lookup_modify lookup_arena Let_def truthy_def entries_modify entries_arena
        new_player_def)
  then have "map hp (vals (players (current (run
          (arena_events @ [Message 0 (Some (Hit ''b'' None d)) ''a'',
                           Message 0 (Some (Hit ''b'' None d)) ''a'']) None)))) =
          [Fin 100, clamp0 (clamp0 (Fin 100 - d) - d)]" for d
    by (simp add: vals_def new_player_def)
  moreover have "(2 :: real) ^ 1023 \<in> \<int>" by simp
  ultimately show ?thesis
    unfolding two_negative_hits [symmetric]
    by (simp add: arena_events_def is_integer_def)
qed

end
